theory Spec2Isabelle
  imports Complex_Main "HOL-Library.AList"
begin

unbundle bit_operations_syntax

section \<open>Python primitives the monitor relies on\<close>

text \<open>
  Wall-clock instants (\<^verbatim>\<open>datetime\<close> values) are seconds on the real line, so that
  \<^verbatim>\<open>(now - ts).total_seconds()\<close> is the difference \<open>now - ts\<close>. Python floats
  (throughput values) are modelled as reals: rounding is not represented.
  Strings are lists of 8-bit characters.
\<close>

type_synonym time = real

datatype error = ACFParseError | ValueError

definition dquote :: char where
  "dquote = CHR 0x22"

text \<open>\<^verbatim>\<open>str.isspace\<close> and the regular-expression class \<^verbatim>\<open>\s\<close>, on code points below 256.\<close>

definition is_space :: "char \<Rightarrow> bool" where
  "is_space c =
     (let n = (of_char c :: nat)
      in (9 \<le> n \<and> n \<le> 13) \<or> (28 \<le> n \<and> n \<le> 32) \<or> n = 133 \<or> n = 160)"

text \<open>\<^verbatim>\<open>str.strip()\<close>\<close>

definition strip :: "string \<Rightarrow> string" where
  "strip s = rev (dropWhile is_space (rev (dropWhile is_space s)))"

definition is_digit :: "char \<Rightarrow> bool" where
  "is_digit c = (let n = (of_char c :: nat) in 48 \<le> n \<and> n \<le> 57)"

definition digit_val :: "char \<Rightarrow> int" where
  "digit_val c = int (of_char c) - 48"

text \<open>
  The digits of an \<^verbatim>\<open>int(...)\<close> literal: at least one digit, single underscores allowed
  between digits. The flag says whether the previous character was a digit.
\<close>

fun digits_acc :: "int \<Rightarrow> bool \<Rightarrow> string \<Rightarrow> int option" where
  "digits_acc acc prev [] = (if prev then Some acc else None)"
| "digits_acc acc prev (c # cs) =
     (if is_digit c then digits_acc (10 * acc + digit_val c) True cs
      else if c = CHR ''_'' \<and> prev then digits_acc acc False cs
      else None)"

text \<open>
  The whitespace \<^verbatim>\<open>int(...)\<close> skips around a literal: the C \<^verbatim>\<open>isspace\<close> characters and,
  from code point 127 on, the Unicode spaces. The separators U+001C to U+001F, which
  \<^verbatim>\<open>str.strip()\<close> removes, are not skipped.
\<close>

definition is_int_space :: "char \<Rightarrow> bool" where
  "is_int_space c =
     (let n = (of_char c :: nat)
      in (9 \<le> n \<and> n \<le> 13) \<or> n = 32 \<or> n = 133 \<or> n = 160)"

text \<open>
  \<^verbatim>\<open>int(s)\<close> for a string: \<open>None\<close> is the \<^verbatim>\<open>ValueError\<close>. A literal of more than 4300
  digits is refused, the default of \<^verbatim>\<open>sys.set_int_max_str_digits\<close>.
\<close>

definition py_int :: "string \<Rightarrow> int option" where
  "py_int s =
     (let t = rev (dropWhile is_int_space (rev (dropWhile is_int_space s)))
      in if length (filter is_digit t) > 4300 then None
         else (case t of
                 [] \<Rightarrow> None
               | c # cs \<Rightarrow>
                   if c = CHR ''-'' then map_option uminus (digits_acc 0 False cs)
                   else if c = CHR ''+'' then digits_acc 0 False cs
                   else digits_acc 0 False (c # cs)))"

text \<open>\<^verbatim>\<open>dict.get(key, default)\<close>\<close>

definition dict_get :: "('k \<rightharpoonup> 'v) \<Rightarrow> 'k \<Rightarrow> 'v \<Rightarrow> 'v" where
  "dict_get d k dflt = (case d k of Some v \<Rightarrow> v | None \<Rightarrow> dflt)"

section \<open>Manifest reader (\<^verbatim>\<open>parser.py\<close>: \<^verbatim>\<open>_read_file_with_retry\<close>, \<^verbatim>\<open>parse_acf\<close>)\<close>

text \<open>
  The file system is the outcome of each successive \<^verbatim>\<open>open\<close>/\<^verbatim>\<open>read\<close> attempt:
  \<open>io i\<close> is the content read at attempt \<open>i\<close>, or \<open>None\<close> when that attempt raises
  \<^verbatim>\<open>PermissionError\<close>/\<^verbatim>\<open>OSError\<close>. The second argument of \<open>read_attempts\<close> is the
  loop variable \<^verbatim>\<open>attempt\<close>, the third the number of iterations still to run.
\<close>

primrec read_attempts :: "(nat \<Rightarrow> string option) \<Rightarrow> nat \<Rightarrow> nat \<Rightarrow> string option" where
  "read_attempts io attempt 0 = None"
| "read_attempts io attempt (Suc k) =
     (case io attempt of
        Some content \<Rightarrow> Some content
      | None \<Rightarrow> if 0 < k then read_attempts io (Suc attempt) k else None)"

definition read_file_with_retry :: "(nat \<Rightarrow> string option) \<Rightarrow> nat \<Rightarrow> string option" where
  "read_file_with_retry io retries = read_attempts io 0 retries"

text \<open>
  The pattern \<^verbatim>\<open>"(\s*[^"]+\s*)"\s*"(\s*[^"]+\s*)"\<close>. A group is a non-empty run of
  characters other than the double quote, closed by a double quote (whitespace is not a
  quote, so the three parts of a group together are just such a run).
  \<open>quoted s\<close> reads a group at the head of \<open>s\<close> and returns it with the text after the
  closing quote; \<open>match_pair s\<close> is a match of the whole pattern starting at the head of
  \<open>s\<close>: the two groups and the text after the match.
\<close>

definition quoted :: "string \<Rightarrow> (string \<times> string) option" where
  "quoted s =
     (let g = takeWhile (\<lambda>c. c \<noteq> dquote) s; r = dropWhile (\<lambda>c. c \<noteq> dquote) s
      in if g = [] \<or> r = [] then None else Some (g, tl r))"

definition match_pair :: "string \<Rightarrow> ((string \<times> string) \<times> string) option" where
  "match_pair s =
     (case s of
        [] \<Rightarrow> None
      | c # r0 \<Rightarrow>
          if c \<noteq> dquote then None
          else (case quoted r0 of
                  None \<Rightarrow> None
                | Some (k, r1) \<Rightarrow>
                    (case dropWhile is_space r1 of
                       [] \<Rightarrow> None
                     | d # r2 \<Rightarrow>
                         if d \<noteq> dquote then None
                         else (case quoted r2 of
                                 None \<Rightarrow> None
                               | Some (v, r3) \<Rightarrow> Some ((k, v), r3)))))"

lemma quoted_shorter: "quoted s = Some (g, r) \<Longrightarrow> length r < length s"
proof -
  assume a: "quoted s = Some (g, r)"
  let ?d = "dropWhile (\<lambda>c. c \<noteq> dquote) s"
  from a have d: "?d \<noteq> []" and r: "r = tl ?d"
    by (auto simp: quoted_def Let_def split: if_splits)
  have "length ?d \<le> length s" by (rule length_dropWhile_le)
  moreover from d have "length (tl ?d) < length ?d" by (cases ?d) auto
  ultimately show ?thesis using r by simp
qed

lemma match_pair_shorter:
  assumes "match_pair s = Some (kv, rest)"
  shows "length rest < length s"
proof -
  from assms obtain c r0 k r1 d r2 v where
    s: "s = c # r0" and q1: "quoted r0 = Some (k, r1)"
    and dw: "dropWhile is_space r1 = d # r2" and q2: "quoted r2 = Some (v, rest)"
    by (auto simp: match_pair_def split: list.splits if_splits option.splits)
  have "length (dropWhile is_space r1) \<le> length r1" by (rule length_dropWhile_le)
  with dw have "length r2 < length r1" by simp
  with quoted_shorter[OF q1] quoted_shorter[OF q2] s show ?thesis by simp
qed

text \<open>
  \<^verbatim>\<open>re.finditer\<close>: the matches from left to right, each search resuming where the previous
  match ended; a position with no match is skipped.
\<close>

function finditer :: "string \<Rightarrow> (string \<times> string) list" where
  "finditer [] = []"
| "finditer (c # r) =
     (case match_pair (c # r) of
        Some (kv, rest) \<Rightarrow> kv # finditer rest
      | None \<Rightarrow> finditer r)"
  by pat_completeness auto
termination
  by (relation "measure length") (auto dest: match_pair_shorter)

definition store_pair :: "string \<times> string \<Rightarrow> (string \<rightharpoonup> string) \<Rightarrow> (string \<rightharpoonup> string)" where
  "store_pair kv data = data(strip (fst kv) \<mapsto> strip (snd kv))"

definition parse_acf :: "(nat \<Rightarrow> string option) \<Rightarrow> error + (string \<rightharpoonup> string)" where
  "parse_acf io =
     (case read_file_with_retry io 3 of
        None \<Rightarrow> Inl ACFParseError
      | Some content \<Rightarrow> Inr (fold store_pair (finditer content) Map.empty))"

section \<open>Log state engine (\<^verbatim>\<open>parser.py\<close>: class \<^verbatim>\<open>LogParser\<close>)\<close>

definition MAX_AGE_SEC :: real where
  "MAX_AGE_SEC = 180"

definition PRUNE_AGE_SEC :: real where
  "PRUNE_AGE_SEC = 3600"

text \<open>The event kinds \<^verbatim>\<open>"pause"\<close>, \<^verbatim>\<open>"start"\<close>, \<^verbatim>\<open>"network"\<close> of the list \<^verbatim>\<open>etypes\<close>.\<close>

datatype etype = Pause | Start | Network

text \<open>
  The instance attributes of \<^verbatim>\<open>LogParser\<close>. \<^verbatim>\<open>recent_events\<close> is a dictionary whose
  iteration order is observable, so it is an association list in insertion order;
  a \<^verbatim>\<open>Throughput\<close> is its \<^verbatim>\<open>bytes_per_sec\<close>.
\<close>

record parser_state =
  last_pos :: nat
  latest_rate :: "(time \<times> real) option"
  recent_events :: "(int \<times> (time \<times> etype) list) list"
  depot_to_app :: "string \<rightharpoonup> string"
  rate_entries :: "(time \<times> int \<times> string) list"

text \<open>
  What the module's regular expressions and \<^verbatim>\<open>strptime\<close> find in one line of the log.
  The matching itself is the work of Python's \<^verbatim>\<open>re\<close> and \<^verbatim>\<open>datetime\<close>; the engine
  only consumes these results:
  \<^item> \<open>rate_hit\<close>: \<^verbatim>\<open>_LINE_RE.search(line)\<close>, as \<^verbatim>\<open>strptime\<close> of group \<^verbatim>\<open>ts\<close>
    (\<open>None\<close> for \<^verbatim>\<open>ValueError\<close>), group 2 and group 3;
  \<^item> \<open>appid_hits\<close>: the integers of \<^verbatim>\<open>re.findall(r"AppID\s+(\d+)", line)\<close>, whose head is
    also the group of \<^verbatim>\<open>re.search(r"AppID\s+(\d+)", line)\<close>;
  \<^item> \<open>depot_hits\<close>: \<^verbatim>\<open>re.findall(r"depot\s+(\d+)", line)\<close>;
  \<^item> \<open>depot_pair\<close>: groups \<^verbatim>\<open>depot_id\<close>, \<^verbatim>\<open>app_id\<close> of the pattern of \<^verbatim>\<open>DEPOT_PATTERNS\<close>;
  \<^item> \<open>stamp_hit\<close>: the first timestamp-shaped text of the line, through \<^verbatim>\<open>strptime\<close>
    (\<open>Some None\<close> for \<^verbatim>\<open>ValueError\<close>);
  \<^item> \<open>event_hit\<close>: the kind of the first pattern of
    \<^verbatim>\<open>PAUSE_PATTERNS + START_PATTERNS + NETWORK_PATTERNS\<close> that matches once the line's
    app id is substituted for its \<^verbatim>\<open>app_id\<close> group.
\<close>

record log_line =
  rate_hit :: "(time option \<times> string \<times> string) option"
  appid_hits :: "int list"
  depot_hits :: "string list"
  depot_pair :: "(string \<times> string) option"
  stamp_hit :: "time option option"
  event_hit :: "etype option"

text \<open>\<^verbatim>\<open>str.lower()\<close> on code points below 256.\<close>

definition lower_char :: "char \<Rightarrow> char" where
  "lower_char c =
     (let n = (of_char c :: nat)
      in if (65 \<le> n \<and> n \<le> 90) \<or> (192 \<le> n \<and> n \<le> 222 \<and> n \<noteq> 215)
         then char_of (n + 32) else c)"

definition decimal :: "string \<Rightarrow> int" where
  "decimal ds = foldl (\<lambda>acc c. 10 * acc + digit_val c) 0 ds"

text \<open>
  \<^verbatim>\<open>float(s)\<close> on what group 2 of the rate pattern (\<^verbatim>\<open>[\d.]+\<close>) can hold: digits with
  at most one dot and at least one digit; \<open>None\<close> is the \<^verbatim>\<open>ValueError\<close>.
\<close>

definition py_float :: "string \<Rightarrow> real option" where
  "py_float s =
     (let ip = takeWhile is_digit s
      in case dropWhile is_digit s of
           [] \<Rightarrow> if ip = [] then None else Some (of_int (decimal ip))
         | c # fp \<Rightarrow>
             if c = CHR ''.'' \<and> list_all is_digit fp \<and> (ip \<noteq> [] \<or> fp \<noteq> [])
             then Some (of_int (decimal ip) + of_int (decimal fp) / 10 ^ length fp)
             else None)"

definition speed_of_unit :: "real \<Rightarrow> string \<Rightarrow> real option" where
  "speed_of_unit v unit =
     (if unit = ''kb/s'' then Some (v * 1024)
      else if unit = ''mb/s'' then Some (v * 1024 * 1024)
      else if unit = ''mbps'' then Some (v * 1000000 / 8)
      else None)"

text \<open>
  The app a rate line is attributed to: the first \<^verbatim>\<open>AppID\<close> token, else the first
  \<^verbatim>\<open>depot\<close> token looked up in \<^verbatim>\<open>depot_to_app\<close>. \<open>Inl ValueError\<close> is a failing
  \<^verbatim>\<open>int(self.depot_to_app[depot_id])\<close>.
\<close>

definition owner_app :: "log_line \<Rightarrow> (string \<rightharpoonup> string) \<Rightarrow> error + int option" where
  "owner_app line dmap =
     (case appid_hits line of
        a # _ \<Rightarrow> Inr (Some a)
      | [] \<Rightarrow>
          (case depot_hits line of
             [] \<Rightarrow> Inr None
           | d # _ \<Rightarrow>
               (case dmap d of
                  None \<Rightarrow> Inr None
                | Some v \<Rightarrow>
                    (case py_int v of
                       None \<Rightarrow> Inl ValueError
                     | Some a \<Rightarrow> Inr (Some a)))))"

definition newer_than_held :: "time \<Rightarrow> (time \<times> real) option \<Rightarrow> bool" where
  "newer_than_held ts held = (case held of None \<Rightarrow> True | Some (t0, _) \<Rightarrow> ts > t0)"

text \<open>
  The rate matcher of the loop body. The Boolean is \<open>True\<close> when the body ends in
  \<^verbatim>\<open>continue\<close>, so that the depot and lifecycle matchers are skipped for this line.
\<close>

definition rate_step :: "time \<Rightarrow> log_line \<Rightarrow> parser_state \<Rightarrow> bool \<times> parser_state" where
  "rate_step now line s =
     (case rate_hit line of
        None \<Rightarrow> (False, s)
      | Some (tso, num, unit) \<Rightarrow>
          (case tso of
             None \<Rightarrow> (True, s)
           | Some ts \<Rightarrow>
               if now - ts > MAX_AGE_SEC then (True, s)
               else (case py_float num of
                       None \<Rightarrow> (True, s)
                     | Some v \<Rightarrow>
                         (case speed_of_unit v (map lower_char unit) of
                            None \<Rightarrow> (True, s)
                          | Some speed_bytes \<Rightarrow>
                              (let s1 = (if newer_than_held ts (latest_rate s)
                                         then s\<lparr>latest_rate := Some (ts, speed_bytes)\<rparr>
                                         else s)
                               in case owner_app line (depot_to_app s1) of
                                    Inl _ \<Rightarrow> (True, s1)
                                  | Inr None \<Rightarrow> (False, s1)
                                  | Inr (Some a) \<Rightarrow>
                                      (False, s1\<lparr>rate_entries :=
                                                   rate_entries s1 @ [(ts, a, num)]\<rparr>))))))"

definition depot_step :: "log_line \<Rightarrow> parser_state \<Rightarrow> parser_state" where
  "depot_step line s =
     (case depot_pair line of
        None \<Rightarrow> s
      | Some (depot_id, app_id) \<Rightarrow> s\<lparr>depot_to_app := (depot_to_app s)(depot_id \<mapsto> app_id)\<rparr>)"

text \<open>\<^verbatim>\<open>dict.setdefault(app_id, [])\<close> and \<^verbatim>\<open>dict.get(app_id, [])\<close> on the event dictionary.\<close>

definition ev_setdefault ::
  "int \<Rightarrow> (int \<times> (time \<times> etype) list) list \<Rightarrow> (int \<times> (time \<times> etype) list) list" where
  "ev_setdefault a evs = (if a \<in> fst ` set evs then evs else evs @ [(a, [])])"

definition ev_get :: "(int \<times> (time \<times> etype) list) list \<Rightarrow> int \<Rightarrow> (time \<times> etype) list" where
  "ev_get evs a = (case map_of evs a of Some l \<Rightarrow> l | None \<Rightarrow> [])"

definition lifecycle_step :: "time \<Rightarrow> log_line \<Rightarrow> parser_state \<Rightarrow> parser_state" where
  "lifecycle_step now line s =
     (case appid_hits line of
        [] \<Rightarrow> s
      | a # _ \<Rightarrow>
          (let s1 = s\<lparr>recent_events := ev_setdefault a (recent_events s)\<rparr>
           in case stamp_hit line of
                None \<Rightarrow> s1
              | Some None \<Rightarrow> s1
              | Some (Some ts) \<Rightarrow>
                  if now - ts > PRUNE_AGE_SEC then s1
                  else (case event_hit line of
                          None \<Rightarrow> s1
                        | Some e \<Rightarrow>
                            s1\<lparr>recent_events :=
                                 AList.map_entry a (\<lambda>l. l @ [(ts, e)]) (recent_events s1)\<rparr>)))"

definition process_line :: "time \<Rightarrow> parser_state \<Rightarrow> log_line \<Rightarrow> parser_state" where
  "process_line now s line =
     (case rate_step now line s of
        (True, s1) \<Rightarrow> s1
      | (False, s1) \<Rightarrow> lifecycle_step now line (depot_step line s1))"

text \<open>The prune pass that ends a refresh.\<close>

definition fresh :: "time \<Rightarrow> time \<Rightarrow> bool" where
  "fresh now ts = (now - ts \<le> PRUNE_AGE_SEC)"

definition prune :: "time \<Rightarrow> parser_state \<Rightarrow> parser_state" where
  "prune now s =
     s\<lparr>rate_entries := filter (\<lambda>e. fresh now (fst e)) (rate_entries s),
       recent_events :=
         filter (\<lambda>kv. snd kv \<noteq> [])
           (map (\<lambda>kv. (fst kv, filter (\<lambda>e. fresh now (fst e)) (snd kv))) (recent_events s))\<rparr>"

definition scan :: "time \<Rightarrow> log_line list \<Rightarrow> parser_state \<Rightarrow> parser_state" where
  "scan now lines s = prune now (foldl (process_line now) s lines)"

text \<open>\<^verbatim>\<open>str.splitlines()\<close> on code points below 256; the first argument is the line so far, reversed.\<close>

definition is_linebreak :: "char \<Rightarrow> bool" where
  "is_linebreak c =
     (let n = (of_char c :: nat)
      in (10 \<le> n \<and> n \<le> 13) \<or> (28 \<le> n \<and> n \<le> 30) \<or> n = 133)"

fun splitlines_acc :: "string \<Rightarrow> string \<Rightarrow> string list" where
  "splitlines_acc cur [] = (if cur = [] then [] else [rev cur])"
| "splitlines_acc cur [c] = (if is_linebreak c then [rev cur] else [rev (c # cur)])"
| "splitlines_acc cur (c # d # cs) =
     (if c = CHR 0x0D \<and> d = CHR 0x0A then rev cur # splitlines_acc [] cs
      else if is_linebreak c then rev cur # splitlines_acc [] (d # cs)
      else splitlines_acc (c # cur) (d # cs))"

definition splitlines :: "string \<Rightarrow> string list" where
  "splitlines s = splitlines_acc [] s"

text \<open>
  The log file as a refresh finds it: absent; failing with \<^verbatim>\<open>OSError\<close> before its size
  is known (in \<^verbatim>\<open>open\<close>, \<^verbatim>\<open>seek\<close> or \<^verbatim>\<open>tell\<close>); of a known size, with \<^verbatim>\<open>f.read()\<close>
  failing with \<^verbatim>\<open>OSError\<close>; or holding a text whose length is the size \<^verbatim>\<open>f.tell()\<close>
  reports at its end.
\<close>

datatype log_file = Missing | Unreadable | ReadFails nat | Readable string

text \<open>
  \<^verbatim>\<open>_update_log_state\<close>. \<open>rx\<close> is the matching of one line, \<open>now\<close> the clock read by the
  refresh after the file has been read. The comparison of the size with the cursor and
  \<^verbatim>\<open>self.last_pos = 0\<close> come before \<^verbatim>\<open>f.read()\<close> in the \<^verbatim>\<open>try\<close> block, every other
  assignment after it: when the read fails, the handler returns with the cursor at 0 if a
  truncation was detected and with nothing else changed.
\<close>

definition update_log_state ::
  "(string \<Rightarrow> log_line) \<Rightarrow> log_file \<Rightarrow> time \<Rightarrow> bool \<Rightarrow> parser_state \<Rightarrow> parser_state" where
  "update_log_state rx f now full_load s =
     (case f of
        Missing \<Rightarrow> s
      | Unreadable \<Rightarrow> s
      | ReadFails current_size \<Rightarrow>
          (if current_size < last_pos s then s\<lparr>last_pos := 0\<rparr> else s)
      | Readable content \<Rightarrow>
          (let current_size = length content;
               truncated = current_size < last_pos s;
               s0 = (if truncated then s\<lparr>last_pos := 0\<rparr> else s)
           in if full_load \<or> truncated
              then scan now (map rx (splitlines content))
                     (s0\<lparr>last_pos := current_size, latest_rate := None, recent_events := [],
                         depot_to_app := Map.empty, rate_entries := []\<rparr>)
              else (let lines = splitlines (drop (last_pos s0) content);
                        s1 = s0\<lparr>last_pos := current_size\<rparr>
                    in if lines = [] then s1 else scan now (map rx lines) s1)))"

text \<open>The constructor: empty indexes, then a full load.\<close>

definition empty_state :: parser_state where
  "empty_state =
     \<lparr>last_pos = 0, latest_rate = None, recent_events = [], depot_to_app = Map.empty,
      rate_entries = []\<rparr>"

definition init :: "(string \<Rightarrow> log_line) \<Rightarrow> log_file \<Rightarrow> time \<Rightarrow> parser_state" where
  "init rx f now = update_log_state rx f now True empty_state"

section \<open>Queries of the engine\<close>

text \<open>
  Every query first refreshes (\<^verbatim>\<open>self._update_log_state()\<close>) and returns the state it
  leaves behind with its answer. \<open>clock\<close> is the time the refresh reads, \<open>now\<close> the time
  the query reads afterwards.
\<close>

definition later_pause :: "time \<Rightarrow> time \<Rightarrow> time \<times> etype \<Rightarrow> bool" where
  "later_pause now ts ev = (snd ev = Pause \<and> fst ev > ts \<and> now - fst ev \<le> MAX_AGE_SEC)"

text \<open>The loop over the rate entries, newest first.\<close>

fun scan_rate_entries ::
  "time \<Rightarrow> (int \<times> (time \<times> etype) list) list \<Rightarrow> (time \<times> int \<times> string) list \<Rightarrow> int option" where
  "scan_rate_entries now evs [] = None"
| "scan_rate_entries now evs ((ts, a, raw) # rest) =
     (if now - ts \<le> MAX_AGE_SEC
      then (let all_events = sort_key fst (ev_get evs a);
                has_later_pause = list_ex (later_pause now ts) all_events
            in if \<not> has_later_pause then Some a else scan_rate_entries now evs rest)
      else scan_rate_entries now evs rest)"

text \<open>The loop over \<^verbatim>\<open>self.recent_events.items()\<close> that fills \<^verbatim>\<open>active_apps\<close>.\<close>

fun active_apps_of ::
  "time \<Rightarrow> (int \<times> (time \<times> etype) list) list \<Rightarrow> (time \<times> int) list" where
  "active_apps_of now [] = []"
| "active_apps_of now ((a, events) # rest) =
     (let sorted_events = sort_key fst events
      in if sorted_events \<noteq> []
         then (let latest_event_time = fst (last sorted_events);
                   latest_event_type = snd (last sorted_events)
               in if (latest_event_type = Start \<or> latest_event_type = Network)
                     \<and> now - latest_event_time \<le> MAX_AGE_SEC
                  then (let has_later_pause =
                              list_ex (later_pause now latest_event_time) sorted_events
                        in if \<not> has_later_pause
                           then (latest_event_time, a) # active_apps_of now rest
                           else active_apps_of now rest)
                  else active_apps_of now rest)
         else active_apps_of now rest)"

definition most_recent_active :: "time \<Rightarrow> parser_state \<Rightarrow> int option" where
  "most_recent_active now s =
     (case scan_rate_entries now (recent_events s)
             (sort_key (\<lambda>e. - fst e) (rate_entries s)) of
        Some a \<Rightarrow> Some a
      | None \<Rightarrow>
          (case sort_key (\<lambda>x. - fst x) (active_apps_of now (recent_events s)) of
             [] \<Rightarrow> None
           | x # _ \<Rightarrow> Some (snd x)))"

definition get_most_recent_active_download ::
  "(string \<Rightarrow> log_line) \<Rightarrow> log_file \<Rightarrow> time \<Rightarrow> time \<Rightarrow> parser_state
     \<Rightarrow> int option \<times> parser_state" where
  "get_most_recent_active_download rx f clock now s =
     (let s1 = update_log_state rx f clock False s in (most_recent_active now s1, s1))"

text \<open>
  \<^verbatim>\<open>get_recent_pause_info\<close>: \<^verbatim>\<open>events.sort(..., reverse=True)\<close> sorts the list held in the
  dictionary itself, so the state returned holds the sorted list.
\<close>

definition get_recent_pause_info ::
  "(string \<Rightarrow> log_line) \<Rightarrow> log_file \<Rightarrow> time \<Rightarrow> int \<Rightarrow> parser_state
     \<Rightarrow> (time \<times> string) option \<times> parser_state" where
  "get_recent_pause_info rx f clock a s =
     (let s1 = update_log_state rx f clock False s;
          events = ev_get (recent_events s1) a
      in if events = [] then (None, s1)
         else (let sorted_events = sort_key (\<lambda>e. - fst e) events;
                   s2 = s1\<lparr>recent_events :=
                             AList.map_entry a (\<lambda>_. sorted_events) (recent_events s1)\<rparr>
               in if snd (hd sorted_events) = Pause
                  then (Some (fst (hd sorted_events), ''paused''), s2)
                  else (None, s2)))"

datatype DownloadState = DOWNLOADING | PAUSED | UNPACKING | IDLE

definition get_status ::
  "(string \<Rightarrow> log_line) \<Rightarrow> log_file \<Rightarrow> time \<Rightarrow> int \<Rightarrow> (string \<rightharpoonup> string) \<Rightarrow> real \<Rightarrow> int
     \<Rightarrow> parser_state \<Rightarrow> (error + DownloadState) \<times> parser_state" where
  "get_status rx f clock flags data speed a s =
     (case get_recent_pause_info rx f clock a s of
        (pause_info, s1) \<Rightarrow>
          (if pause_info \<noteq> None then Inr PAUSED
           else if flags AND 512 \<noteq> 0 then Inr PAUSED
           else (case (data ''BytesToDownload'', data ''BytesDownloaded'') of
                   (Some to_dl, Some dl) \<Rightarrow>
                     (case py_int to_dl of
                        None \<Rightarrow> Inl ValueError
                      | Some bytes_to_dl \<Rightarrow>
                          (case py_int dl of
                             None \<Rightarrow> Inl ValueError
                           | Some bytes_dl \<Rightarrow>
                               if bytes_to_dl = bytes_dl
                               then (if flags AND (2097152 OR 4194304) \<noteq> 0 then Inr UNPACKING
                                     else if speed > 0 then Inr DOWNLOADING
                                     else Inr IDLE)
                               else if flags AND (256 OR 1024 OR 1048576) \<noteq> 0
                               then (if speed > 0 then Inr DOWNLOADING else Inr PAUSED)
                               else Inr PAUSED))
                 | _ \<Rightarrow> Inr IDLE),
           s1))"

definition read_latest_speed ::
  "(string \<Rightarrow> log_line) \<Rightarrow> log_file \<Rightarrow> time \<Rightarrow> time \<Rightarrow> parser_state
     \<Rightarrow> (time \<times> real) option \<times> parser_state" where
  "read_latest_speed rx f clock now s =
     (let s1 = update_log_state rx f clock False s
      in (case latest_rate s1 of
            None \<Rightarrow> None
          | Some (ts, thr) \<Rightarrow> if now - ts \<le> MAX_AGE_SEC then Some (ts, thr) else None,
          s1))"

section \<open>Active-game resolver (\<^verbatim>\<open>game_finder.py\<close>) and sample compositor (\<^verbatim>\<open>monitor.py\<close>)\<close>

record DownloadingGame =
  game_app_id :: int
  game_name :: string
  game_path :: string

text \<open>
  One file of \<^verbatim>\<open>steamapps.glob("appmanifest_*.acf")\<close>: its path, the outcome of the
  attempts to read it, and \<^verbatim>\<open>stat().st_mtime\<close> (\<open>None\<close> when \<^verbatim>\<open>stat\<close> raises).
\<close>

record manifest_file =
  acf_path :: string
  acf_io :: "nat \<Rightarrow> string option"
  acf_mtime :: "real option"

datatype bucket = ActiveBucket | PausedBucket

text \<open>
  The body of the fallback loop for one manifest: the list the game is appended to, if any.
  Every exception and the \<^verbatim>\<open>continue\<close> of \<^verbatim>\<open>appid == 0\<close> leave both lists alone.
\<close>

definition classify_manifest ::
  "(string \<Rightarrow> log_line) \<Rightarrow> log_file \<Rightarrow> time \<Rightarrow> manifest_file \<Rightarrow> parser_state
     \<Rightarrow> (bucket \<times> real \<times> DownloadingGame) option \<times> parser_state" where
  "classify_manifest rx f clock m s =
     (case parse_acf (acf_io m) of
        Inl _ \<Rightarrow> (None, s)
      | Inr data \<Rightarrow>
          (case py_int (dict_get data ''appid'' ''0'') of
             None \<Rightarrow> (None, s)
           | Some a \<Rightarrow>
               if a = 0 then (None, s)
               else (case py_int (dict_get data ''StateFlags'' ''4'') of
                       None \<Rightarrow> (None, s)
                     | Some flags \<Rightarrow>
                         (case acf_mtime m of
                            None \<Rightarrow> (None, s)
                          | Some last_modified \<Rightarrow>
                              (let game = \<lparr>game_app_id = a,
                                           game_name = dict_get data ''name'' ''Unknown'',
                                           game_path = acf_path m\<rparr>
                               in case get_recent_pause_info rx f clock a s of
                                    (pause_info, s1) \<Rightarrow>
                                      if pause_info \<noteq> None \<or> flags AND 512 \<noteq> 0
                                      then (Some (PausedBucket, last_modified, game), s1)
                                      else if flags AND (256 OR 1024 OR 1048576) \<noteq> 0
                                      then (case (data ''BytesToDownload'',
                                                  data ''BytesDownloaded'') of
                                              (Some to_dl, Some dl) \<Rightarrow>
                                                (case py_int to_dl of
                                                   None \<Rightarrow> (None, s1)
                                                 | Some bytes_to_dl \<Rightarrow>
                                                     (case py_int dl of
                                                        None \<Rightarrow> (None, s1)
                                                      | Some bytes_dl \<Rightarrow>
                                                          if bytes_to_dl > bytes_dl
                                                          then (Some (ActiveBucket,
                                                                  last_modified, game), s1)
                                                          else (None, s1)))
                                            | _ \<Rightarrow> (None, s1))
                                      else (Some (PausedBucket, last_modified, game), s1))))))"

type_synonym buckets =
  "(real \<times> DownloadingGame) list \<times> (real \<times> DownloadingGame) list \<times> parser_state"

definition fallback_step ::
  "(string \<Rightarrow> log_line) \<Rightarrow> log_file \<Rightarrow> time \<Rightarrow> buckets \<Rightarrow> manifest_file \<Rightarrow> buckets" where
  "fallback_step rx f clock acc m =
     (case acc of
        (active_games, paused_games, s) \<Rightarrow>
          (case classify_manifest rx f clock m s of
             (None, s1) \<Rightarrow> (active_games, paused_games, s1)
           | (Some (ActiveBucket, entry), s1) \<Rightarrow> (active_games @ [entry], paused_games, s1)
           | (Some (PausedBucket, entry), s1) \<Rightarrow> (active_games, paused_games @ [entry], s1)))"

text \<open>\<^verbatim>\<open>games.sort(key=lambda x: x[0], reverse=True); return games[0][1]\<close>\<close>

definition newest_game :: "(real \<times> DownloadingGame) list \<Rightarrow> DownloadingGame" where
  "newest_game games = snd (hd (sort_key (\<lambda>x. - fst x) games))"

definition find_active_game_fallback ::
  "(string \<Rightarrow> log_line) \<Rightarrow> log_file \<Rightarrow> time \<Rightarrow> manifest_file list \<Rightarrow> parser_state
     \<Rightarrow> DownloadingGame option \<times> parser_state" where
  "find_active_game_fallback rx f clock manifests s =
     (case foldl (fallback_step rx f clock) ([], [], s) manifests of
        (active_games, paused_games, s1) \<Rightarrow>
          (if active_games \<noteq> [] then Some (newest_game active_games)
           else if paused_games \<noteq> [] then Some (newest_game paused_games)
           else None,
           s1))"

text \<open>
  The first tier of \<^verbatim>\<open>find_active_game\<close>: the first manifest whose \<^verbatim>\<open>appid\<close> is the
  active app. Only \<^verbatim>\<open>ACFParseError\<close> is caught there, so a \<^verbatim>\<open>ValueError\<close> of
  \<^verbatim>\<open>int(...)\<close> leaves the function.
\<close>

fun match_manifest :: "int \<Rightarrow> manifest_file list \<Rightarrow> error + DownloadingGame option" where
  "match_manifest active_app_id [] = Inr None"
| "match_manifest active_app_id (m # ms) =
     (case parse_acf (acf_io m) of
        Inl _ \<Rightarrow> match_manifest active_app_id ms
      | Inr data \<Rightarrow>
          (case py_int (dict_get data ''appid'' ''0'') of
             None \<Rightarrow> Inl ValueError
           | Some a \<Rightarrow>
               if a = active_app_id
               then Inr (Some \<lparr>game_app_id = a,
                               game_name = dict_get data ''name'' ''Unknown'',
                               game_path = acf_path m\<rparr>)
               else match_manifest active_app_id ms))"

definition find_active_game ::
  "(string \<Rightarrow> log_line) \<Rightarrow> log_file \<Rightarrow> time \<Rightarrow> time \<Rightarrow> manifest_file list \<Rightarrow> parser_state
     \<Rightarrow> (error + DownloadingGame option) \<times> parser_state" where
  "find_active_game rx f clock now manifests s =
     (case get_most_recent_active_download rx f clock now s of
        (active_app_id, s1) \<Rightarrow>
          (let fallback = (case find_active_game_fallback rx f clock manifests s1 of
                             (g, s2) \<Rightarrow> (Inr g, s2))
           in case active_app_id of
                None \<Rightarrow> fallback
              | Some a \<Rightarrow>
                  if a = 0 then fallback
                  else (case match_manifest a manifests of
                          Inl e \<Rightarrow> (Inl e, s1)
                        | Inr (Some g) \<Rightarrow> (Inr (Some g), s1)
                        | Inr None \<Rightarrow> fallback)))"

text \<open>
  The \<^verbatim>\<open>try\<close> block of \<^verbatim>\<open>get_current_sample\<close>: parse the game's manifest, read
  \<^verbatim>\<open>StateFlags\<close> with the default \<^verbatim>\<open>"4"\<close>, classify; any exception gives \<^verbatim>\<open>IDLE\<close>.
\<close>

definition sample_status ::
  "(string \<Rightarrow> log_line) \<Rightarrow> log_file \<Rightarrow> time \<Rightarrow> (nat \<Rightarrow> string option) \<Rightarrow> real \<Rightarrow> int
     \<Rightarrow> parser_state \<Rightarrow> DownloadState \<times> parser_state" where
  "sample_status rx f clock io speed a s =
     (case parse_acf io of
        Inl _ \<Rightarrow> (IDLE, s)
      | Inr data \<Rightarrow>
          (case py_int (dict_get data ''StateFlags'' ''4'') of
             None \<Rightarrow> (IDLE, s)
           | Some flags \<Rightarrow>
               (case get_status rx f clock flags data speed a s of
                  (Inl _, s1) \<Rightarrow> (IDLE, s1)
                | (Inr st, s1) \<Rightarrow> (st, s1))))"

record DownloadSample =
  timestamp :: real
  speed_bytes_per_sec :: real
  status :: DownloadState
  game :: "DownloadingGame option"

text \<open>Opening a game's path again: the attempts of the manifest with that path.\<close>

definition open_path :: "manifest_file list \<Rightarrow> string \<Rightarrow> (nat \<Rightarrow> string option)" where
  "open_path manifests p =
     (case find (\<lambda>m. acf_path m = p) manifests of
        Some m \<Rightarrow> acf_io m
      | None \<Rightarrow> (\<lambda>_. None))"

definition get_current_sample ::
  "(string \<Rightarrow> log_line) \<Rightarrow> log_file \<Rightarrow> time \<Rightarrow> time \<Rightarrow> real \<Rightarrow> manifest_file list
     \<Rightarrow> parser_state \<Rightarrow> (error + DownloadSample) \<times> parser_state" where
  "get_current_sample rx f clock now wall manifests s =
     (case find_active_game rx f clock now manifests s of
        (Inl e, s1) \<Rightarrow> (Inl e, s1)
      | (Inr found, s1) \<Rightarrow>
          (case read_latest_speed rx f clock now s1 of
             (speed_entry, s2) \<Rightarrow>
               (let speed = (case speed_entry of Some (_, thr) \<Rightarrow> thr | None \<Rightarrow> 0)
                in case found of
                     None \<Rightarrow>
                       (Inr \<lparr>timestamp = wall, speed_bytes_per_sec = 0, status = IDLE,
                             game = None\<rparr>, s2)
                   | Some g \<Rightarrow>
                       (case sample_status rx f clock (open_path manifests (game_path g))
                               speed (game_app_id g) s2 of
                          (st, s3) \<Rightarrow>
                            (Inr \<lparr>timestamp = wall, speed_bytes_per_sec = speed, status = st,
                                  game = Some g\<rparr>, s3)))))"

section \<open>Notions used to state the engine's properties\<close>

text \<open>A sequence of refreshes, each with the file and the clock it finds: the states passed through.\<close>

fun refresh_trace ::
  "(string \<Rightarrow> log_line) \<Rightarrow> parser_state \<Rightarrow> (log_file \<times> time) list \<Rightarrow> parser_state list" where
  "refresh_trace rx s [] = [s]"
| "refresh_trace rx s (step # steps) =
     s # refresh_trace rx (update_log_state rx (fst step) (snd step) False s) steps"





text \<open>
  The most recent active download in the words of its description. A rate entry is
  confirmed when it is at most 180s old and its app has no pause event that is strictly
  newer than the entry and itself at most 180s old. The latest event of an app is the last
  of its events in timestamp order. An app is active by its events when its latest event is
  a start or network event at most 180s old with no later pause at most 180s old.
\<close>

definition rate_confirmed ::
  "time \<Rightarrow> (int \<times> (time \<times> etype) list) list \<Rightarrow> time \<times> int \<times> string \<Rightarrow> bool" where
  "rate_confirmed now evs e =
     (now - fst e \<le> 180
      \<and> \<not> list_ex (\<lambda>p. snd p = Pause \<and> fst p > fst e \<and> now - fst p \<le> 180)
            (ev_get evs (fst (snd e))))"

definition latest_event :: "(time \<times> etype) list \<Rightarrow> time \<times> etype" where
  "latest_event evs = last (sort_key fst evs)"

definition event_active :: "time \<Rightarrow> (time \<times> etype) list \<Rightarrow> bool" where
  "event_active now evs =
     (evs \<noteq> []
      \<and> (snd (latest_event evs) = Start \<or> snd (latest_event evs) = Network)
      \<and> now - fst (latest_event evs) \<le> 180
      \<and> \<not> list_ex (\<lambda>p. snd p = Pause \<and> fst p > fst (latest_event evs) \<and> now - fst p \<le> 180)
            evs)"

definition spec_most_recent_active :: "time \<Rightarrow> parser_state \<Rightarrow> int option" where
  "spec_most_recent_active now s =
     (case find (rate_confirmed now (recent_events s))
             (sort_key (\<lambda>e. - fst e) (rate_entries s)) of
        Some e \<Rightarrow> Some (fst (snd e))
      | None \<Rightarrow>
          (case sort_key (\<lambda>x. - fst x)
                  (map (\<lambda>kv. (fst (latest_event (snd kv)), fst kv))
                     (filter (\<lambda>kv. event_active now (snd kv)) (recent_events s))) of
             [] \<Rightarrow> None
           | x # _ \<Rightarrow> Some (snd x)))"

text \<open>
  The entries the fallback appends to a bucket, in the order of the manifests, each
  manifest classified against the engine state the fallback starts from.
\<close>

definition bucket_list ::
  "(string \<Rightarrow> log_line) \<Rightarrow> log_file \<Rightarrow> time \<Rightarrow> bucket \<Rightarrow> parser_state \<Rightarrow> manifest_file list
     \<Rightarrow> (real \<times> DownloadingGame) list" where
  "bucket_list rx f clock b s manifests =
     List.map_filter
       (\<lambda>m. case fst (classify_manifest rx f clock m s) of
               Some (b', entry) \<Rightarrow> if b' = b then Some entry else None
             | None \<Rightarrow> None)
       manifests"

text \<open>
  The states the loop passes through: the state it started from, or one that has the
  cursor of the refreshed state and, for every app, the same events newest first.
\<close>

definition loop_state ::
  "(string \<Rightarrow> log_line) \<Rightarrow> log_file \<Rightarrow> time \<Rightarrow> parser_state \<Rightarrow> parser_state \<Rightarrow> bool" where
  "loop_state rx f clock s t =
     (t = s
      \<or> (last_pos t = last_pos (update_log_state rx f clock False s)
         \<and> (\<forall>b. sort_key (\<lambda>e. - fst e) (ev_get (recent_events t) b) =
                  sort_key (\<lambda>e. - fst e)
                    (ev_get (recent_events (update_log_state rx f clock False s)) b))))"

section \<open>Concrete inputs\<close>

text \<open>
  A line in which none of the patterns matches, and the matching of a log made of such
  lines only.
\<close>

definition blank_line :: log_line where
  "blank_line = \<lparr>rate_hit = None, appid_hits = [], depot_hits = [], depot_pair = None,
                 stamp_hit = None, event_hit = None\<rparr>"

definition no_hits :: "string \<Rightarrow> log_line" where
  "no_hits text = blank_line"

text \<open>
  Manifest texts: one quoted pair per line. \<open>completed_acf\<close> carries the download flag
  with equal byte counts, \<open>unflagged_acf\<close> has no \<^verbatim>\<open>StateFlags\<close> pair, \<open>partial_acf\<close>
  carries the download flag with bytes still to fetch.
\<close>

definition acf_entry :: "string \<Rightarrow> string \<Rightarrow> string" where
  "acf_entry k v = dquote # k @ dquote # CHR 0x09 # dquote # v @ dquote # [CHR 0x0A]"

definition completed_acf :: string where
  "completed_acf = acf_entry ''appid'' ''12345'' @ acf_entry ''StateFlags'' ''256''
     @ acf_entry ''BytesDownloaded'' ''500'' @ acf_entry ''BytesToDownload'' ''500''"

definition unflagged_acf :: string where
  "unflagged_acf = acf_entry ''appid'' ''12345''
     @ acf_entry ''BytesDownloaded'' ''500'' @ acf_entry ''BytesToDownload'' ''500''"

definition partial_acf :: "string \<Rightarrow> string" where
  "partial_acf a = acf_entry ''appid'' a @ acf_entry ''StateFlags'' ''256''
     @ acf_entry ''BytesDownloaded'' ''100'' @ acf_entry ''BytesToDownload'' ''500''"

text \<open>
  Three lines of a content log and what the patterns find in them, with second 0 standing
  for 2024-01-01 00:00:00: an \<^verbatim>\<open>update started\<close> line is a start event, an
  \<^verbatim>\<open>update canceled\<close> line a pause event, and the rate line a rate sample with an app id and
  no lifecycle event. \<open>log_of\<close> writes lines to a file, each ended by a newline.
\<close>

definition start_text :: string where
  "start_text = ''[2024-01-01 00:00:00] AppID 12345 update started''"

definition pause_text :: string where
  "pause_text = ''[2024-01-01 00:00:20] AppID 12345 update canceled''"

definition rate_text :: string where
  "rate_text = ''[2024-01-01 00:00:40] Download rate: 10.5 MB/s AppID 12345''"

definition demo_rx :: "string \<Rightarrow> log_line" where
  "demo_rx text =
     (if text = start_text
      then blank_line\<lparr>appid_hits := [12345], stamp_hit := Some (Some 0), event_hit := Some Start\<rparr>
      else if text = pause_text
      then blank_line\<lparr>appid_hits := [12345], stamp_hit := Some (Some 20), event_hit := Some Pause\<rparr>
      else if text = rate_text
      then blank_line\<lparr>rate_hit := Some (Some 40, ''10.5'', ''MB/s''), appid_hits := [12345],
                       stamp_hit := Some (Some 40)\<rparr>
      else blank_line)"

definition log_of :: "string list \<Rightarrow> string" where
  "log_of texts = concat (map (\<lambda>t. t @ [CHR 0x0A]) texts)"

section \<open>The manifest reader's contract\<close>

lemma read3:
  "read_file_with_retry io 3 =
     (case io 0 of Some c \<Rightarrow> Some c | None \<Rightarrow> (case io 1 of Some c \<Rightarrow> Some c | None \<Rightarrow> io 2))"
  by (simp add: read_file_with_retry_def numeral_3_eq_3 numeral_2_eq_2 split: option.splits)

lemma read3_None: "read_file_with_retry io 3 = None \<longleftrightarrow> (\<forall>i<3. io i = None)"
proof -
  have "(\<forall>i<3. io i = None) \<longleftrightarrow> io 0 = None \<and> io 1 = None \<and> io 2 = None"
  proof
    assume a: "\<forall>i<3. io i = None"
    show "io 0 = None \<and> io 1 = None \<and> io 2 = None" using a by simp
  next
    assume a: "io 0 = None \<and> io 1 = None \<and> io 2 = None"
    show "\<forall>i<3. io i = None"
    proof (intro allI impI)
      fix i :: nat assume "i < 3"
      then have "i = 0 \<or> i = 1 \<or> i = 2" by arith
      with a show "io i = None" by auto
    qed
  qed
  then show ?thesis by (simp add: read3 split: option.splits)
qed

lemma read3_first:
  assumes "i < 3" "io i = Some c" "\<forall>j<i. io j = None"
  shows "read_file_with_retry io 3 = Some c"
proof -
  from assms(1) have "i = 0 \<or> i = 1 \<or> i = 2" by arith
  then show ?thesis using assms(2,3) by (auto simp: read3 split: option.splits)
qed

lemma fold_store_pair:
  "fold store_pair xs m = m ++ map_of (rev (map (\<lambda>kv. (strip (fst kv), strip (snd kv))) xs))"
proof (induction xs arbitrary: m)
  case Nil
  then show ?case by simp
next
  case (Cons x xs)
  let ?t = "\<lambda>kv. (strip (fst kv), strip (snd kv))"
  let ?M = "map_of (rev (map ?t xs))"
  have "fold store_pair (x # xs) m = store_pair x m ++ ?M"
    using Cons.IH[of "store_pair x m"] by simp
  also have "store_pair x m = m(strip (fst x) \<mapsto> strip (snd x))"
    by (simp only: store_pair_def)
  also have "m(strip (fst x) \<mapsto> strip (snd x)) ++ ?M = m ++ ([strip (fst x) \<mapsto> strip (snd x)] ++ ?M)"
    by (rule ext) (simp add: map_add_def split: option.splits)
  also have "[strip (fst x) \<mapsto> strip (snd x)] ++ ?M = map_of (rev (map ?t (x # xs)))"
    by (simp add: map_of_append)
  finally show ?case .
qed

lemma not_space_dquote: "\<not> is_space dquote"
  by (simp add: is_space_def dquote_def)

lemma quoted_iff:
  "quoted s = Some (g, r) \<longleftrightarrow> s = g @ dquote # r \<and> g \<noteq> [] \<and> dquote \<notin> set g"
proof
  assume a: "quoted s = Some (g, r)"
  let ?P = "\<lambda>c. c \<noteq> dquote"
  from a have g: "g = takeWhile ?P s" "g \<noteq> []" and d: "dropWhile ?P s \<noteq> []" and r: "r = tl (dropWhile ?P s)"
    by (auto simp: quoted_def Let_def split: if_splits)
  from d have "\<not> ?P (hd (dropWhile ?P s))" by (rule hd_dropWhile)
  with d r have "dropWhile ?P s = dquote # r" by (cases "dropWhile ?P s") auto
  with takeWhile_dropWhile_id[of ?P s] g have "s = g @ dquote # r" by simp
  moreover have "dquote \<notin> set g" using g(1) by (auto dest: set_takeWhileD)
  ultimately show "s = g @ dquote # r \<and> g \<noteq> [] \<and> dquote \<notin> set g" using g(2) by simp
next
  assume a: "s = g @ dquote # r \<and> g \<noteq> [] \<and> dquote \<notin> set g"
  let ?P = "\<lambda>c. c \<noteq> dquote"
  from a have all: "\<And>x. x \<in> set g \<Longrightarrow> ?P x" by auto
  have "takeWhile ?P s = g" using a all by (simp add: takeWhile_append2)
  moreover have "dropWhile ?P s = dquote # r" using a all by (simp add: dropWhile_append2)
  ultimately show "quoted s = Some (g, r)" using a by (simp add: quoted_def)
qed

lemma gap_iff:
  "dropWhile is_space r1 = dquote # r2 \<longleftrightarrow> (\<exists>w. r1 = w @ dquote # r2 \<and> list_all is_space w)"
proof
  assume a: "dropWhile is_space r1 = dquote # r2"
  have "r1 = takeWhile is_space r1 @ dropWhile is_space r1" by simp
  moreover have "list_all is_space (takeWhile is_space r1)"
    by (auto simp: list_all_iff dest: set_takeWhileD)
  ultimately show "\<exists>w. r1 = w @ dquote # r2 \<and> list_all is_space w" using a by metis
next
  assume "\<exists>w. r1 = w @ dquote # r2 \<and> list_all is_space w"
  then obtain w where w: "r1 = w @ dquote # r2" "list_all is_space w" by blast
  then show "dropWhile is_space r1 = dquote # r2"
    by (simp add: dropWhile_append2 list_all_iff not_space_dquote)
qed

lemma match_pair_iff:
  "match_pair s = Some ((k, v), rest) \<longleftrightarrow>
     (\<exists>w. s = dquote # k @ dquote # w @ dquote # v @ dquote # rest
          \<and> k \<noteq> [] \<and> dquote \<notin> set k \<and> list_all is_space w \<and> v \<noteq> [] \<and> dquote \<notin> set v)"
proof
  assume "match_pair s = Some ((k, v), rest)"
  then obtain r0 r1 r2 where
    s: "s = dquote # r0" and q1: "quoted r0 = Some (k, r1)"
    and dw: "dropWhile is_space r1 = dquote # r2" and q2: "quoted r2 = Some (v, rest)"
    by (auto simp: match_pair_def split: list.splits if_splits option.splits)
  from dw obtain w where w: "r1 = w @ dquote # r2" "list_all is_space w"
    using gap_iff by blast
  from q1 q2 s w show "\<exists>w. s = dquote # k @ dquote # w @ dquote # v @ dquote # rest
          \<and> k \<noteq> [] \<and> dquote \<notin> set k \<and> list_all is_space w \<and> v \<noteq> [] \<and> dquote \<notin> set v"
    by (auto simp: quoted_iff)
next
  assume "\<exists>w. s = dquote # k @ dquote # w @ dquote # v @ dquote # rest
          \<and> k \<noteq> [] \<and> dquote \<notin> set k \<and> list_all is_space w \<and> v \<noteq> [] \<and> dquote \<notin> set v"
  then obtain w where s: "s = dquote # k @ dquote # w @ dquote # v @ dquote # rest"
    and k: "k \<noteq> []" "dquote \<notin> set k" and w: "list_all is_space w"
    and v: "v \<noteq> []" "dquote \<notin> set v" by blast
  have q1: "quoted (k @ dquote # w @ dquote # v @ dquote # rest) = Some (k, w @ dquote # v @ dquote # rest)"
    using k by (simp add: quoted_iff)
  have dw: "dropWhile is_space (w @ dquote # v @ dquote # rest) = dquote # v @ dquote # rest"
    using w gap_iff by blast
  have q2: "quoted (v @ dquote # rest) = Some (v, rest)" using v by (simp add: quoted_iff)
  show "match_pair s = Some ((k, v), rest)"
    by (simp add: match_pair_def s q1 dw q2)
qed

lemma finditer_no_quote: "dquote \<notin> set c \<Longrightarrow> finditer c = []"
proof (induction c)
  case Nil
  then show ?case by simp
next
  case (Cons a c)
  then have "match_pair (a # c) = None" by (auto simp: match_pair_def)
  with Cons show ?case by simp
qed

text \<open>
  Claim C8. \<^verbatim>\<open>parse_acf\<close> raises exactly when all three read attempts fail, and what it
  raises is \<^verbatim>\<open>ACFParseError\<close>. As soon as one of the three attempts delivers a content,
  the result is the dictionary of the quoted pairs found in it from left to right, keys
  and values stripped, a later pair overwriting an earlier one with the same key. A match
  of the pattern is exactly a quote, a non-empty quote-free key, a quote, whitespace, a
  quote, a non-empty quote-free value and a quote; a content holding no quote at all has
  no pair, so any content, however malformed, gives a dictionary and never an error.
\<close>

theorem parse_acf_contract:
  "((\<exists>e. parse_acf io = Inl e) \<longleftrightarrow> (\<forall>i<3. io i = None))
   \<and> (\<forall>e. parse_acf io = Inl e \<longrightarrow> e = ACFParseError)
   \<and> (\<forall>i c. i < 3 \<and> io i = Some c \<and> (\<forall>j<i. io j = None) \<longrightarrow>
          parse_acf io =
            Inr (map_of (rev (map (\<lambda>kv. (strip (fst kv), strip (snd kv))) (finditer c)))))
   \<and> (\<forall>s k v rest.
          match_pair s = Some ((k, v), rest) \<longleftrightarrow>
            (\<exists>w. s = dquote # k @ dquote # w @ dquote # v @ dquote # rest
                 \<and> k \<noteq> [] \<and> dquote \<notin> set k \<and> list_all is_space w
                 \<and> v \<noteq> [] \<and> dquote \<notin> set v))
   \<and> (\<forall>c. dquote \<notin> set c \<longrightarrow> finditer c = [])"
proof (intro conjI allI impI)
  show "(\<exists>e. parse_acf io = Inl e) \<longleftrightarrow> (\<forall>i<3. io i = None)"
    using read3_None[of io] by (auto simp: parse_acf_def split: option.splits)
next
  fix e assume "parse_acf io = Inl e"
  then show "e = ACFParseError" by (auto simp: parse_acf_def split: option.splits)
next
  fix i c assume "i < 3 \<and> io i = Some c \<and> (\<forall>j<i. io j = None)"
  then have "read_file_with_retry io 3 = Some c" using read3_first by blast
  then show "parse_acf io =
      Inr (map_of (rev (map (\<lambda>kv. (strip (fst kv), strip (snd kv))) (finditer c))))"
    by (simp add: parse_acf_def fold_store_pair)
next
  fix s k v rest
  show "match_pair s = Some ((k, v), rest) \<longleftrightarrow>
          (\<exists>w. s = dquote # k @ dquote # w @ dquote # v @ dquote # rest
               \<and> k \<noteq> [] \<and> dquote \<notin> set k \<and> list_all is_space w
               \<and> v \<noteq> [] \<and> dquote \<notin> set v)"
    by (rule match_pair_iff)
next
  fix c :: string assume "dquote \<notin> set c"
  then show "finditer c = []" by (rule finditer_no_quote)
qed

text \<open>
  The third attempt succeeds on a two-line manifest fragment with padded values; the
  brace line between the pairs matches nothing.
\<close>

theorem parse_acf_contract_witness:
  "parse_acf (\<lambda>i. if i = 2
                  then Some (dquote # ''appid'' @ dquote # ''   '' @ dquote # '' 12345 '' @ dquote
                             # '' { '' @ dquote # ''name'' @ dquote # dquote # ''Test Game'' @ [dquote])
                  else None)
     = Inr (map_of [(''name'', ''Test Game''), (''appid'', ''12345'')])"
proof -
  let ?c = "dquote # ''appid'' @ dquote # ''   '' @ dquote # '' 12345 '' @ dquote
              # '' { '' @ dquote # ''name'' @ dquote # dquote # ''Test Game'' @ [dquote]"
  let ?io = "\<lambda>i::nat. if i = 2 then Some ?c else None"
  have h: "(2::nat) < 3 \<and> ?io 2 = Some ?c \<and> (\<forall>j<2. ?io j = None)" by simp
  have m: "finditer ?c = [(''appid'', '' 12345 ''), (''name'', ''Test Game'')]"
    by (simp add: match_pair_def quoted_def dquote_def is_space_def)
  have s: "strip ''appid'' = ''appid''" "strip '' 12345 '' = ''12345''"
     "strip ''name'' = ''name''" "strip ''Test Game'' = ''Test Game''"
    by (simp_all add: strip_def is_space_def)
  note c3 = parse_acf_contract[of ?io, THEN conjunct2, THEN conjunct2, THEN conjunct1, rule_format, of 2 ?c]
  from c3[OF h]
  have "parse_acf ?io =
          Inr (map_of (rev (map (\<lambda>kv. (strip (fst kv), strip (snd kv))) (finditer ?c))))" .
  then show ?thesis
    unfolding m by (simp add: s)
qed

section \<open>Status classification\<close>

lemma py_int_4: "py_int ''4'' = Some 4"
  by (simp add: py_int_def is_int_space_def Let_def is_digit_def digit_val_def)

text \<open>
  Claim C2, amended. \<^verbatim>\<open>get_status\<close> returns \<^verbatim>\<open>PAUSED\<close> when a pause is reported for
  the app or bit 512 is set; otherwise \<^verbatim>\<open>IDLE\<close> when a byte field is missing; otherwise it
  raises \<^verbatim>\<open>ValueError\<close> when a byte field is not an integer literal; otherwise, with equal
  byte counts, \<^verbatim>\<open>UNPACKING\<close> under an unpacking flag, \<^verbatim>\<open>DOWNLOADING\<close> when speed is
  positive and \<^verbatim>\<open>IDLE\<close> if not; with byte counts that differ in either direction, under a
  download-family flag \<^verbatim>\<open>DOWNLOADING\<close> when speed is positive and \<^verbatim>\<open>PAUSED\<close> if not,
  and \<^verbatim>\<open>PAUSED\<close> without such a flag.
\<close>

theorem get_status_rule:
  "(fst (get_recent_pause_info rx f clock a s) \<noteq> None \<or> flags AND 512 \<noteq> 0 \<longrightarrow>
      fst (get_status rx f clock flags data speed a s) = Inr PAUSED)
   \<and> (fst (get_recent_pause_info rx f clock a s) = None \<and> flags AND 512 = 0 \<longrightarrow>
        ((data ''BytesToDownload'' = None \<or> data ''BytesDownloaded'' = None \<longrightarrow>
            fst (get_status rx f clock flags data speed a s) = Inr IDLE)
         \<and> (\<forall>t d. data ''BytesToDownload'' = Some t \<and> data ''BytesDownloaded'' = Some d \<longrightarrow>
              ((py_int t = None \<or> py_int d = None \<longrightarrow>
                  fst (get_status rx f clock flags data speed a s) = Inl ValueError)
               \<and> (\<forall>x y. py_int t = Some x \<and> py_int d = Some y \<longrightarrow>
                    fst (get_status rx f clock flags data speed a s) =
                      Inr (if x = y
                           then (if flags AND (2097152 OR 4194304) \<noteq> 0 then UNPACKING
                                 else if speed > 0 then DOWNLOADING else IDLE)
                           else if flags AND (256 OR 1024 OR 1048576) \<noteq> 0
                           then (if speed > 0 then DOWNLOADING else PAUSED)
                           else PAUSED))))))
   \<and> snd (get_status rx f clock flags data speed a s) =
       snd (get_recent_pause_info rx f clock a s)"
proof -
  obtain p s1 where q: "get_recent_pause_info rx f clock a s = (p, s1)"
    by (cases "get_recent_pause_info rx f clock a s")
  let ?r = "fst (get_status rx f clock flags data speed a s)"
  have paused: "p \<noteq> None \<or> flags AND 512 \<noteq> 0 \<Longrightarrow> ?r = Inr PAUSED"
    using q by (auto simp: get_status_def)
  have rest: "?r =
      (case (data ''BytesToDownload'', data ''BytesDownloaded'') of
         (Some to_dl, Some dl) \<Rightarrow>
           (case py_int to_dl of
              None \<Rightarrow> Inl ValueError
            | Some bytes_to_dl \<Rightarrow>
                (case py_int dl of
                   None \<Rightarrow> Inl ValueError
                 | Some bytes_dl \<Rightarrow>
                     if bytes_to_dl = bytes_dl
                     then (if flags AND (2097152 OR 4194304) \<noteq> 0 then Inr UNPACKING
                           else if speed > 0 then Inr DOWNLOADING
                           else Inr IDLE)
                     else if flags AND (256 OR 1024 OR 1048576) \<noteq> 0
                     then (if speed > 0 then Inr DOWNLOADING else Inr PAUSED)
                     else Inr PAUSED))
       | _ \<Rightarrow> Inr IDLE)"
    if "p = None" "flags AND 512 = 0"
    using q that by (simp add: get_status_def)
  have c1: "fst (get_recent_pause_info rx f clock a s) \<noteq> None \<or> flags AND 512 \<noteq> 0 \<longrightarrow>
      ?r = Inr PAUSED"
    using paused q by simp
  have c2: "fst (get_recent_pause_info rx f clock a s) = None \<and> flags AND 512 = 0 \<longrightarrow>
        ((data ''BytesToDownload'' = None \<or> data ''BytesDownloaded'' = None \<longrightarrow> ?r = Inr IDLE)
         \<and> (\<forall>t d. data ''BytesToDownload'' = Some t \<and> data ''BytesDownloaded'' = Some d \<longrightarrow>
              ((py_int t = None \<or> py_int d = None \<longrightarrow> ?r = Inl ValueError)
               \<and> (\<forall>x y. py_int t = Some x \<and> py_int d = Some y \<longrightarrow>
                    ?r =
                      Inr (if x = y
                           then (if flags AND (2097152 OR 4194304) \<noteq> 0 then UNPACKING
                                 else if speed > 0 then DOWNLOADING else IDLE)
                           else if flags AND (256 OR 1024 OR 1048576) \<noteq> 0
                           then (if speed > 0 then DOWNLOADING else PAUSED)
                           else PAUSED)))))"
  proof (intro impI)
    assume h: "fst (get_recent_pause_info rx f clock a s) = None \<and> flags AND 512 = 0"
    with q have r: "?r =
      (case (data ''BytesToDownload'', data ''BytesDownloaded'') of
         (Some to_dl, Some dl) \<Rightarrow>
           (case py_int to_dl of
              None \<Rightarrow> Inl ValueError
            | Some bytes_to_dl \<Rightarrow>
                (case py_int dl of
                   None \<Rightarrow> Inl ValueError
                 | Some bytes_dl \<Rightarrow>
                     if bytes_to_dl = bytes_dl
                     then (if flags AND (2097152 OR 4194304) \<noteq> 0 then Inr UNPACKING
                           else if speed > 0 then Inr DOWNLOADING
                           else Inr IDLE)
                     else if flags AND (256 OR 1024 OR 1048576) \<noteq> 0
                     then (if speed > 0 then Inr DOWNLOADING else Inr PAUSED)
                     else Inr PAUSED))
       | _ \<Rightarrow> Inr IDLE)"
      using rest by simp
    show "(data ''BytesToDownload'' = None \<or> data ''BytesDownloaded'' = None \<longrightarrow> ?r = Inr IDLE)
         \<and> (\<forall>t d. data ''BytesToDownload'' = Some t \<and> data ''BytesDownloaded'' = Some d \<longrightarrow>
              ((py_int t = None \<or> py_int d = None \<longrightarrow> ?r = Inl ValueError)
               \<and> (\<forall>x y. py_int t = Some x \<and> py_int d = Some y \<longrightarrow>
                    ?r =
                      Inr (if x = y
                           then (if flags AND (2097152 OR 4194304) \<noteq> 0 then UNPACKING
                                 else if speed > 0 then DOWNLOADING else IDLE)
                           else if flags AND (256 OR 1024 OR 1048576) \<noteq> 0
                           then (if speed > 0 then DOWNLOADING else PAUSED)
                           else PAUSED))))"
      unfolding r by (auto split: option.splits)
  qed
  have c3: "snd (get_status rx f clock flags data speed a s) =
       snd (get_recent_pause_info rx f clock a s)"
    using q by (simp add: get_status_def)
  show ?thesis by (rule conjI[OF c1 conjI[OF c2 c3]])
qed

lemma no_file_pause_info:
  "get_recent_pause_info rx Missing clock a empty_state = (None, empty_state)"
  by (simp add: get_recent_pause_info_def update_log_state_def empty_state_def ev_get_def)

text \<open>
  A download in progress (flag 256, a fifth of the bytes fetched, positive speed), and
  equal byte counts with the download flag at speed 0, which is \<^verbatim>\<open>IDLE\<close>.
\<close>

theorem get_status_rule_witness:
  "fst (get_status no_hits Missing 0 256
          [''BytesToDownload'' \<mapsto> ''5000000'', ''BytesDownloaded'' \<mapsto> ''1000000'']
          100000 12345 empty_state) = Inr DOWNLOADING
   \<and> fst (get_status no_hits Missing 0 256
          [''BytesToDownload'' \<mapsto> ''5000000'', ''BytesDownloaded'' \<mapsto> ''5000000'']
          0 12345 empty_state) = Inr IDLE"
proof -
  let ?d1 = "[''BytesToDownload'' \<mapsto> ''5000000'', ''BytesDownloaded'' \<mapsto> ''1000000'']"
  let ?d2 = "[''BytesToDownload'' \<mapsto> ''5000000'', ''BytesDownloaded'' \<mapsto> ''5000000'']"
  have p: "fst (get_recent_pause_info no_hits Missing 0 12345 empty_state) = None"
    by (simp add: no_file_pause_info)
  have fl: "(256::int) AND 512 = 0" by simp
  have i: "py_int ''5000000'' = Some 5000000" "py_int ''1000000'' = Some 1000000"
    by (simp_all add: py_int_def is_int_space_def Let_def is_digit_def digit_val_def)
  note r1 = get_status_rule[of no_hits Missing 0 12345 empty_state 256 ?d1 100000,
      THEN conjunct2, THEN conjunct1, rule_format, OF conjI[OF p fl], THEN conjunct2, rule_format,
      of "''5000000''" "''1000000''", THEN conjunct2, rule_format, of 5000000 1000000]
  note r2 = get_status_rule[of no_hits Missing 0 12345 empty_state 256 ?d2 0,
      THEN conjunct2, THEN conjunct1, rule_format, OF conjI[OF p fl], THEN conjunct2, rule_format,
      of "''5000000''" "''5000000''", THEN conjunct2, rule_format, of 5000000 5000000]
  from r1 i have "fst (get_status no_hits Missing 0 256 ?d1 100000 12345 empty_state) = Inr DOWNLOADING"
    by simp
  moreover from r2 i have "fst (get_status no_hits Missing 0 256 ?d2 0 12345 empty_state) = Inr IDLE"
    by simp
  ultimately show ?thesis by simp
qed

text \<open>
  Claim C2 as stated fails: with \<^verbatim>\<open>BytesDownloaded = 200\<close> above
  \<^verbatim>\<open>BytesToDownload = 100\<close>, flag 256 and speed 1, the claim's last case gives
  \<^verbatim>\<open>PAUSED\<close> (the downloaded count is not below the total), the code answers
  \<^verbatim>\<open>DOWNLOADING\<close>.
\<close>

theorem get_status_counterexample:
  "fst (get_status no_hits Missing 0 256
          [''BytesToDownload'' \<mapsto> ''100'', ''BytesDownloaded'' \<mapsto> ''200'']
          1 12345 empty_state) = Inr DOWNLOADING
   \<and> fst (get_status no_hits Missing 0 256
          [''BytesToDownload'' \<mapsto> ''100'', ''BytesDownloaded'' \<mapsto> ''200'']
          1 12345 empty_state) \<noteq> Inr PAUSED"
proof -
  have i: "py_int ''100'' = Some 100" "py_int ''200'' = Some 200"
    by (simp_all add: py_int_def is_int_space_def Let_def is_digit_def digit_val_def)
  show ?thesis
    by (simp add: get_status_def no_file_pause_info i)
qed

section \<open>Evaluating the manifest reader on the concrete manifests\<close>

lemma parse_acf_readable:
  "io 0 = Some c \<Longrightarrow>
     parse_acf io = Inr (map_of (rev (map (\<lambda>kv. (strip (fst kv), strip (snd kv))) (finditer c))))"
  by (simp add: parse_acf_def read3 fold_store_pair)

lemma strip_plain [simp]:
  "strip ''appid'' = ''appid''" "strip ''StateFlags'' = ''StateFlags''"
  "strip ''BytesDownloaded'' = ''BytesDownloaded''" "strip ''BytesToDownload'' = ''BytesToDownload''"
  "strip ''12345'' = ''12345''" "strip ''67890'' = ''67890''" "strip ''256'' = ''256''"
  "strip ''500'' = ''500''" "strip ''100'' = ''100''"
  by (simp_all add: strip_def is_space_def)

lemma py_int_plain [simp]:
  "py_int ''12345'' = Some 12345" "py_int ''67890'' = Some 67890" "py_int ''256'' = Some 256"
  "py_int ''500'' = Some 500" "py_int ''100'' = Some 100"
  by (simp_all add: py_int_def is_int_space_def Let_def is_digit_def digit_val_def)

lemma finditer_completed:
  "finditer completed_acf = [(''appid'', ''12345''), (''StateFlags'', ''256''),
      (''BytesDownloaded'', ''500''), (''BytesToDownload'', ''500'')]"
  by (simp add: completed_acf_def acf_entry_def match_pair_def quoted_def dquote_def is_space_def)

lemma finditer_unflagged:
  "finditer unflagged_acf = [(''appid'', ''12345''),
      (''BytesDownloaded'', ''500''), (''BytesToDownload'', ''500'')]"
  by (simp add: unflagged_acf_def acf_entry_def match_pair_def quoted_def dquote_def is_space_def)

lemma finditer_partial_12345:
  "finditer (partial_acf ''12345'') = [(''appid'', ''12345''), (''StateFlags'', ''256''),
      (''BytesDownloaded'', ''100''), (''BytesToDownload'', ''500'')]"
  by (simp add: partial_acf_def acf_entry_def match_pair_def quoted_def dquote_def is_space_def)

lemma finditer_partial_67890:
  "finditer (partial_acf ''67890'') = [(''appid'', ''67890''), (''StateFlags'', ''256''),
      (''BytesDownloaded'', ''100''), (''BytesToDownload'', ''500'')]"
  by (simp add: partial_acf_def acf_entry_def match_pair_def quoted_def dquote_def is_space_def)

lemma parse_completed:
  "parse_acf (\<lambda>_. Some completed_acf) = Inr (map_of [(''BytesToDownload'', ''500''),
      (''BytesDownloaded'', ''500''), (''StateFlags'', ''256''), (''appid'', ''12345'')])"
  by (simp add: parse_acf_readable finditer_completed)

lemma parse_unflagged:
  "parse_acf (\<lambda>_. Some unflagged_acf) = Inr (map_of [(''BytesToDownload'', ''500''),
      (''BytesDownloaded'', ''500''), (''appid'', ''12345'')])"
  by (simp add: parse_acf_readable finditer_unflagged)

lemma parse_partial_12345:
  "parse_acf (\<lambda>_. Some (partial_acf ''12345'')) = Inr (map_of [(''BytesToDownload'', ''500''),
      (''BytesDownloaded'', ''100''), (''StateFlags'', ''256''), (''appid'', ''12345'')])"
  by (simp add: parse_acf_readable finditer_partial_12345)

lemma parse_partial_67890:
  "parse_acf (\<lambda>_. Some (partial_acf ''67890'')) = Inr (map_of [(''BytesToDownload'', ''500''),
      (''BytesDownloaded'', ''100''), (''StateFlags'', ''256''), (''appid'', ''67890'')])"
  by (simp add: parse_acf_readable finditer_partial_67890)

section \<open>Manifests without a flags field\<close>

lemma not_Some_pair: "(\<forall>a b. x \<noteq> Some (a, b)) \<longleftrightarrow> x = None"
  by (cases x) auto

text \<open>
  Claim C10, amended. A manifest that parses and has no \<^verbatim>\<open>StateFlags\<close> key is given the
  flags value 4, which has none of the bits 512, 256, 1024, 1048576, 2097152, 4194304. In the
  fallback it is never appended to the active list, and is appended to the paused list as
  soon as its \<^verbatim>\<open>appid\<close> is a non-zero integer and its modification time can be read. In
  the compositor its status is \<^verbatim>\<open>PAUSED\<close>, \<^verbatim>\<open>IDLE\<close> or \<^verbatim>\<open>DOWNLOADING\<close>, never
  \<^verbatim>\<open>UNPACKING\<close>, and \<^verbatim>\<open>DOWNLOADING\<close> only with positive speed, no pause reported and
  equal byte counts.
\<close>

theorem default_flags_rule:
  assumes "parse_acf io = Inr data" and "data ''StateFlags'' = None"
  shows "py_int (dict_get data ''StateFlags'' ''4'') = Some 4
     \<and> (4::int) AND 512 = 0
     \<and> (4::int) AND (256 OR 1024 OR 1048576) = 0
     \<and> (4::int) AND (2097152 OR 4194304) = 0
     \<and> (acf_io m = io \<longrightarrow>
          (\<forall>e. fst (classify_manifest rx f clock m s) \<noteq> Some (ActiveBucket, e)))
     \<and> (\<forall>a t. acf_io m = io \<and> py_int (dict_get data ''appid'' ''0'') = Some a \<and> a \<noteq> 0
               \<and> acf_mtime m = Some t \<longrightarrow>
          fst (classify_manifest rx f clock m s) =
            Some (PausedBucket, t,
                  \<lparr>game_app_id = a, game_name = dict_get data ''name'' ''Unknown'',
                   game_path = acf_path m\<rparr>))
     \<and> fst (sample_status rx f clock io speed a s) \<in> {PAUSED, IDLE, DOWNLOADING}
     \<and> (fst (sample_status rx f clock io speed a s) = DOWNLOADING \<longrightarrow>
          speed > 0 \<and> fst (get_recent_pause_info rx f clock a s) = None
          \<and> (\<exists>t d x. data ''BytesToDownload'' = Some t \<and> data ''BytesDownloaded'' = Some d
                      \<and> py_int t = Some x \<and> py_int d = Some x))"
proof -
  have fl: "py_int (dict_get data ''StateFlags'' ''4'') = Some 4"
    using assms(2) by (simp add: dict_get_def py_int_4)
  have b1: "(4::int) AND 512 = 0" and b2: "(4::int) AND (256 OR 1024 OR 1048576) = 0"
    and b3: "(4::int) AND (2097152 OR 4194304) = 0" by simp_all
  have c1: "acf_io m = io \<longrightarrow>
          (\<forall>e. fst (classify_manifest rx f clock m s) \<noteq> Some (ActiveBucket, e))"
    using assms(1) fl b2
    by (auto simp: classify_manifest_def Let_def split: prod.splits option.splits)
  have c2: "\<forall>a t. acf_io m = io \<and> py_int (dict_get data ''appid'' ''0'') = Some a \<and> a \<noteq> 0
               \<and> acf_mtime m = Some t \<longrightarrow>
          fst (classify_manifest rx f clock m s) =
            Some (PausedBucket, t,
                  \<lparr>game_app_id = a, game_name = dict_get data ''name'' ''Unknown'',
                   game_path = acf_path m\<rparr>)"
    using assms(1) fl b1 b2
    by (auto simp: classify_manifest_def Let_def split: prod.splits option.splits)
  have c3: "fst (sample_status rx f clock io speed a s) \<in> {PAUSED, IDLE, DOWNLOADING}"
    using assms(1) fl b3
    by (auto simp: sample_status_def get_status_def split: prod.splits option.splits sum.splits if_splits)
  have c4: "fst (sample_status rx f clock io speed a s) = DOWNLOADING \<longrightarrow>
          speed > 0 \<and> fst (get_recent_pause_info rx f clock a s) = None
          \<and> (\<exists>t d x. data ''BytesToDownload'' = Some t \<and> data ''BytesDownloaded'' = Some d
                      \<and> py_int t = Some x \<and> py_int d = Some x)"
    using assms(1) fl b2
    by (auto simp: sample_status_def get_status_def not_Some_pair
          split: prod.splits option.splits sum.splits if_splits)
  from fl b1 b2 b3 c1 c2 c3 c4 show ?thesis by blast
qed

text \<open>The manifest \<open>unflagged_acf\<close>, modified at time 7, with no log.\<close>

theorem default_flags_rule_witness:
  "fst (classify_manifest no_hits Missing 0
          \<lparr>acf_path = ''appmanifest_12345.acf'', acf_io = (\<lambda>_. Some unflagged_acf),
           acf_mtime = Some 7\<rparr> empty_state)
     = Some (PausedBucket, 7,
             \<lparr>game_app_id = 12345, game_name = ''Unknown'', game_path = ''appmanifest_12345.acf''\<rparr>)
   \<and> fst (sample_status no_hits Missing 0 (\<lambda>_. Some unflagged_acf) 0 12345 empty_state)
       \<in> {PAUSED, IDLE, DOWNLOADING}"
proof -
  let ?data = "map_of [(''BytesToDownload'', ''500''), (''BytesDownloaded'', ''500''),
      (''appid'', ''12345'')]"
  let ?m = "\<lparr>acf_path = ''appmanifest_12345.acf'', acf_io = (\<lambda>_. Some unflagged_acf),
           acf_mtime = Some (7::real)\<rparr>"
  have h1: "parse_acf (\<lambda>_. Some unflagged_acf) = Inr ?data" by (rule parse_unflagged)
  have h2: "?data ''StateFlags'' = None" by simp
  have h3: "acf_io ?m = (\<lambda>_. Some unflagged_acf) \<and> py_int (dict_get ?data ''appid'' ''0'') = Some 12345
      \<and> (12345::int) \<noteq> 0 \<and> acf_mtime ?m = Some 7"
    by (simp add: dict_get_def)
  have n: "dict_get ?data ''name'' ''Unknown'' = ''Unknown''" by (simp add: dict_get_def)
  note r = default_flags_rule[OF h1 h2, of ?m no_hits Missing 0 empty_state 0 12345]
  from r[THEN conjunct2, THEN conjunct2, THEN conjunct2, THEN conjunct2, THEN conjunct2,
         THEN conjunct1, rule_format, OF h3]
  have "fst (classify_manifest no_hits Missing 0 ?m empty_state)
     = Some (PausedBucket, 7,
             \<lparr>game_app_id = 12345, game_name = ''Unknown'', game_path = ''appmanifest_12345.acf''\<rparr>)"
    unfolding n by simp
  moreover from r
  have "fst (sample_status no_hits Missing 0 (\<lambda>_. Some unflagged_acf) 0 12345 empty_state)
       \<in> {PAUSED, IDLE, DOWNLOADING}" by blast
  ultimately show ?thesis by blast
qed

text \<open>
  Claim C10 as stated fails: a manifest without \<^verbatim>\<open>StateFlags\<close>, with equal byte counts,
  is classified \<^verbatim>\<open>DOWNLOADING\<close> when the measured speed is positive.
\<close>

theorem sample_status_counterexample:
  "fst (sample_status no_hits Missing 0 (\<lambda>_. Some unflagged_acf) 1 12345 empty_state) = DOWNLOADING
   \<and> fst (sample_status no_hits Missing 0 (\<lambda>_. Some unflagged_acf) 1 12345 empty_state)
       \<notin> {PAUSED, IDLE}"
  by (simp add: sample_status_def parse_unflagged dict_get_def py_int_4 get_status_def
        no_file_pause_info)

section \<open>The newest entry of a list\<close>

lemma hd_sort_desc:
  fixes games :: "(real \<times> 'a) list"
  assumes "games \<noteq> []"
  shows "hd (sort_key (\<lambda>x. - fst x) games) \<in> set games
         \<and> (\<forall>e \<in> set games. fst e \<le> fst (hd (sort_key (\<lambda>x. - fst x) games)))"
proof -
  let ?f = "\<lambda>x::real \<times> 'a. - fst x"
  let ?ys = "sort_key ?f games"
  from assms have ne: "?ys \<noteq> []" by (metis length_0_conv length_sort)
  then obtain h t where ys: "?ys = h # t" by (cases ?ys) auto
  have "sorted (map ?f ?ys)" by (rule sorted_sort_key)
  with ys have le: "\<forall>y \<in> set t. ?f h \<le> ?f y" by simp
  have st: "set ?ys = set games" by simp
  have "h \<in> set games" using ys st by (metis list.set_intros(1))
  moreover have "\<forall>e \<in> set games. fst e \<le> fst h"
  proof
    fix e assume "e \<in> set games"
    with st ys have "e = h \<or> e \<in> set t" by (metis set_ConsD)
    with le show "fst e \<le> fst h" by auto
  qed
  ultimately show ?thesis using ys by simp
qed

lemma newest_game_max:
  "games \<noteq> [] \<Longrightarrow>
     \<exists>t. (t, newest_game games) \<in> set games \<and> (\<forall>e \<in> set games. fst e \<le> t)"
  using hd_sort_desc[of games] unfolding newest_game_def
  by (metis prod.collapse)

lemma sort_key_Nil_iff [simp]: "sort_key f xs = [] \<longleftrightarrow> xs = []"
  by (metis length_0_conv length_sort)

section \<open>Basic facts about a refresh\<close>

lemma rate_step_last_pos [simp]: "last_pos (snd (rate_step now line s)) = last_pos s"
  by (simp add: rate_step_def Let_def split: option.splits prod.splits sum.splits)

lemma depot_step_last_pos [simp]: "last_pos (depot_step line s) = last_pos s"
  by (simp add: depot_step_def split: option.splits prod.splits)

lemma lifecycle_step_last_pos [simp]: "last_pos (lifecycle_step now line s) = last_pos s"
  by (simp add: lifecycle_step_def Let_def split: option.splits list.splits)

lemma process_line_last_pos [simp]: "last_pos (process_line now s line) = last_pos s"
proof -
  obtain b s1 where r: "rate_step now line s = (b, s1)" by (cases "rate_step now line s")
  then have "last_pos s1 = last_pos s" using rate_step_last_pos[of now line s] by simp
  with r show ?thesis by (cases b) (simp_all add: process_line_def)
qed

lemma foldl_process_last_pos [simp]:
  "last_pos (foldl (process_line now) s lines) = last_pos s"
  by (induction lines arbitrary: s) simp_all

lemma scan_last_pos [simp]: "last_pos (scan now lines s) = last_pos s"
  by (simp add: scan_def prune_def)

lemma truncated_reload:
  "length content < last_pos s \<Longrightarrow>
     update_log_state rx (Readable content) now full_load s = init rx (Readable content) now"
  by (cases s) (simp add: update_log_state_def init_def empty_state_def Let_def)

lemma full_reload:
  "update_log_state rx (Readable content) now True s = init rx (Readable content) now"
  by (cases s) (simp add: update_log_state_def init_def empty_state_def Let_def)

lemma init_readable:
  "init rx (Readable content) now =
     scan now (map rx (splitlines content)) (empty_state\<lparr>last_pos := length content\<rparr>)"
  by (simp add: update_log_state_def init_def empty_state_def Let_def)

lemma refresh_cursor:
  "last_pos (update_log_state rx (Readable content) now full_load s) = length content"
  by (simp add: update_log_state_def Let_def)

lemma refresh_no_file:
  "f = Missing \<or> f = Unreadable \<Longrightarrow> update_log_state rx f now full_load s = s"
  by (auto simp: update_log_state_def)

lemma refresh_read_fails:
  "update_log_state rx (ReadFails n) now full_load s =
     (if n < last_pos s then s\<lparr>last_pos := 0\<rparr> else s)"
  by (simp add: update_log_state_def)

lemma refresh_step_cursor:
  "last_pos s \<le> last_pos (update_log_state rx f now fl s)
   \<or> (\<exists>content. f = Readable content \<and> length content < last_pos s
         \<and> update_log_state rx f now fl s = init rx f now)
   \<or> (\<exists>n. f = ReadFails n \<and> n < last_pos s
         \<and> update_log_state rx f now fl s = s\<lparr>last_pos := 0\<rparr>)"
proof (cases f)
  case Missing
  then show ?thesis by (simp add: refresh_no_file)
next
  case Unreadable
  then show ?thesis by (simp add: refresh_no_file)
next
  case (ReadFails n)
  then show ?thesis by (simp add: refresh_read_fails)
next
  case (Readable content)
  show ?thesis
  proof (cases "length content < last_pos s")
    case True
    with Readable show ?thesis by (simp add: truncated_reload)
  next
    case False
    with Readable show ?thesis by (simp add: refresh_cursor)
  qed
qed

lemma refresh_trace_length [simp]: "length (refresh_trace rx s steps) = Suc (length steps)"
  by (induction steps arbitrary: s) simp_all

lemma refresh_trace_step:
  "i < length steps \<Longrightarrow>
     refresh_trace rx s steps ! Suc i =
       update_log_state rx (fst (steps ! i)) (snd (steps ! i)) False (refresh_trace rx s steps ! i)"
proof (induction steps arbitrary: s i)
  case Nil
  then show ?case by simp
next
  case (Cons step steps)
  show ?case
  proof (cases i)
    case 0
    then show ?thesis by (cases steps) simp_all
  next
    case (Suc j)
    with Cons.prems have "j < length steps" by simp
    from Cons.IH[OF this] Suc show ?thesis by simp
  qed
qed

section \<open>Evaluating the engine on the concrete log\<close>

lemma splitlines_acc_plain:
  "\<forall>c \<in> set t. \<not> is_linebreak c \<Longrightarrow>
     splitlines_acc cur (t @ CHR 0x0A # rest) = (rev cur @ t) # splitlines_acc [] rest"
proof (induction t arbitrary: cur)
  case Nil
  have lb: "is_linebreak (CHR 0x0A)" by (simp add: is_linebreak_def)
  show ?case
  proof (cases rest)
    case Nil
    then show ?thesis using lb by simp
  next
    case (Cons d ds)
    then show ?thesis using lb by simp
  qed
next
  case (Cons c t)
  then have c: "\<not> is_linebreak c" and t: "\<forall>c \<in> set t. \<not> is_linebreak c" by simp_all
  from c have c13: "c \<noteq> CHR 0x0D" by (auto simp: is_linebreak_def)
  obtain d ds where d: "t @ CHR 0x0A # rest = d # ds" by (cases "t @ CHR 0x0A # rest") auto
  have "splitlines_acc cur ((c # t) @ CHR 0x0A # rest) = splitlines_acc cur (c # d # ds)"
    using d by simp
  also have "\<dots> = splitlines_acc (c # cur) (d # ds)" using c c13 by simp
  also have "\<dots> = splitlines_acc (c # cur) (t @ CHR 0x0A # rest)" using d by simp
  also have "\<dots> = (rev (c # cur) @ t) # splitlines_acc [] rest" using Cons.IH[OF t] .
  finally show ?case by simp
qed

lemma splitlines_log_of:
  "\<forall>t \<in> set texts. \<forall>c \<in> set t. \<not> is_linebreak c \<Longrightarrow> splitlines (log_of texts) = texts"
proof (induction texts)
  case Nil
  then show ?case by (simp add: splitlines_def log_of_def)
next
  case (Cons t texts)
  then have t: "\<forall>c \<in> set t. \<not> is_linebreak c" and ih: "splitlines (log_of texts) = texts"
    by simp_all
  have "log_of (t # texts) = t @ CHR 0x0A # log_of texts" by (simp add: log_of_def)
  then show ?case using splitlines_acc_plain[OF t, of "[]" "log_of texts"] ih
    by (simp add: splitlines_def)
qed

lemma plain_texts:
  "\<forall>c \<in> set start_text. \<not> is_linebreak c" "\<forall>c \<in> set pause_text. \<not> is_linebreak c"
  "\<forall>c \<in> set rate_text. \<not> is_linebreak c"
  by (simp_all add: start_text_def pause_text_def rate_text_def is_linebreak_def)

lemma demo_rx_simps:
  "demo_rx start_text =
     blank_line\<lparr>appid_hits := [12345], stamp_hit := Some (Some 0), event_hit := Some Start\<rparr>"
  "demo_rx pause_text =
     blank_line\<lparr>appid_hits := [12345], stamp_hit := Some (Some 20), event_hit := Some Pause\<rparr>"
  "demo_rx rate_text =
     blank_line\<lparr>rate_hit := Some (Some 40, ''10.5'', ''MB/s''), appid_hits := [12345],
                 stamp_hit := Some (Some 40)\<rparr>"
  by (simp_all add: demo_rx_def start_text_def pause_text_def rate_text_def)

lemma texts_length:
  "length start_text = 48" "length pause_text = 49" "length rate_text = 58"
  by (simp_all add: start_text_def pause_text_def rate_text_def)

lemma py_float_10_5: "py_float ''10.5'' = Some (21 / 2)"
  by (simp add: py_float_def is_digit_def digit_val_def decimal_def)

lemma lower_MBs: "map lower_char ''MB/s'' = ''mb/s''"
  by (simp add: lower_char_def char_of_def bit_0)

lemma process_start:
  "now \<le> 3600 \<Longrightarrow>
     process_line now s (demo_rx start_text) =
       s\<lparr>recent_events :=
           AList.map_entry 12345 (\<lambda>l. l @ [(0, Start)]) (ev_setdefault 12345 (recent_events s))\<rparr>"
  by (simp add: demo_rx_simps process_line_def rate_step_def depot_step_def lifecycle_step_def
      blank_line_def PRUNE_AGE_SEC_def)

lemma process_pause:
  "now \<le> 3620 \<Longrightarrow>
     process_line now s (demo_rx pause_text) =
       s\<lparr>recent_events :=
           AList.map_entry 12345 (\<lambda>l. l @ [(20, Pause)]) (ev_setdefault 12345 (recent_events s))\<rparr>"
  by (simp add: demo_rx_simps process_line_def rate_step_def depot_step_def lifecycle_step_def
      blank_line_def PRUNE_AGE_SEC_def)

lemma init_start_pause:
  "init demo_rx (Readable (log_of [start_text, pause_text])) 30 =
     \<lparr>last_pos = 99, latest_rate = None,
      recent_events = [(12345, [(0, Start), (20, Pause)])],
      depot_to_app = Map.empty, rate_entries = []\<rparr>"
proof -
  have len: "length (log_of [start_text, pause_text]) = 99"
    by (simp add: log_of_def texts_length)
  have sp: "splitlines (log_of [start_text, pause_text]) = [start_text, pause_text]"
    by (simp add: splitlines_log_of plain_texts)
  show ?thesis
    unfolding init_readable sp len
    by (simp add: scan_def process_start process_pause
        empty_state_def ev_setdefault_def prune_def fresh_def PRUNE_AGE_SEC_def)
qed

lemma lower_chars:
  "lower_char (CHR ''M'') = CHR ''m''" "lower_char (CHR ''B'') = CHR ''b''"
  "lower_char (CHR ''/'') = CHR ''/''" "lower_char (CHR ''s'') = CHR ''s''"
  by (simp_all add: lower_char_def char_of_def bit_0)


lemma scan_rate_only:
  "scan 50 [demo_rx rate_text]
     \<lparr>last_pos = n, latest_rate = None, recent_events = [], depot_to_app = Map.empty,
      rate_entries = []\<rparr> =
   \<lparr>last_pos = n, latest_rate = Some (40, 11010048), recent_events = [],
    depot_to_app = Map.empty, rate_entries = [(40, 12345, ''10.5'')]\<rparr>"
  by (simp add: scan_def process_line_def rate_step_def depot_step_def lifecycle_step_def
      demo_rx_simps blank_line_def MAX_AGE_SEC_def PRUNE_AGE_SEC_def py_float_10_5 lower_chars
      speed_of_unit_def newer_than_held_def owner_app_def ev_setdefault_def prune_def fresh_def)

section \<open>The read cursor\<close>

text \<open>
  What a refresh does to the cursor. When the file is read, the cursor ends at its size,
  and if the file was shorter than the cursor the state is the one a fresh engine gets
  from the file, whatever was held before. With no file, or an error before the size is
  known, nothing changes. When the read fails, the cursor is set to 0 if the file was
  shorter than the cursor, and the indexes are as they were. Every step of a sequence of
  refreshes is of one of these kinds.
\<close>

lemma refresh_cursor_cases:
  "(\<forall>content. f = Readable content \<longrightarrow>
       last_pos (update_log_state rx f now fl s) = length content
       \<and> (last_pos s \<le> length content \<longrightarrow>
            last_pos s \<le> last_pos (update_log_state rx f now fl s))
       \<and> (length content < last_pos s \<longrightarrow>
            update_log_state rx f now fl s = init rx f now
            \<and> update_log_state rx f now fl s =
                scan now (map rx (splitlines content))
                  \<lparr>last_pos = length content, latest_rate = None, recent_events = [],
                   depot_to_app = Map.empty, rate_entries = []\<rparr>))
   \<and> (f = Missing \<or> f = Unreadable \<longrightarrow> update_log_state rx f now fl s = s)
   \<and> (\<forall>n. f = ReadFails n \<longrightarrow>
         update_log_state rx f now fl s = (if n < last_pos s then s\<lparr>last_pos := 0\<rparr> else s))
   \<and> (\<forall>i. i < length steps \<longrightarrow>
         last_pos (refresh_trace rx s steps ! i) \<le> last_pos (refresh_trace rx s steps ! Suc i)
         \<or> (\<exists>content. fst (steps ! i) = Readable content
               \<and> length content < last_pos (refresh_trace rx s steps ! i)
               \<and> refresh_trace rx s steps ! Suc i = init rx (fst (steps ! i)) (snd (steps ! i)))
         \<or> (\<exists>n. fst (steps ! i) = ReadFails n
               \<and> n < last_pos (refresh_trace rx s steps ! i)
               \<and> refresh_trace rx s steps ! Suc i =
                   (refresh_trace rx s steps ! i)\<lparr>last_pos := 0\<rparr>))"
proof (intro conjI allI impI)
  fix content assume "f = Readable content"
  then show "last_pos (update_log_state rx f now fl s) = length content"
    by (simp add: refresh_cursor)
next
  fix content assume "f = Readable content" "last_pos s \<le> length content"
  then show "last_pos s \<le> last_pos (update_log_state rx f now fl s)"
    by (simp add: refresh_cursor)
next
  fix content assume "f = Readable content" "length content < last_pos s"
  then show "update_log_state rx f now fl s = init rx f now"
    by (simp add: truncated_reload)
next
  fix content assume "f = Readable content" "length content < last_pos s"
  then show "update_log_state rx f now fl s =
                scan now (map rx (splitlines content))
                  \<lparr>last_pos = length content, latest_rate = None, recent_events = [],
                   depot_to_app = Map.empty, rate_entries = []\<rparr>"
    by (simp add: truncated_reload init_readable empty_state_def)
next
  assume "f = Missing \<or> f = Unreadable"
  then show "update_log_state rx f now fl s = s" by (rule refresh_no_file)
next
  fix n assume "f = ReadFails n"
  then show "update_log_state rx f now fl s = (if n < last_pos s then s\<lparr>last_pos := 0\<rparr> else s)"
    by (simp add: refresh_read_fails)
next
  fix i assume "i < length steps"
  then show "last_pos (refresh_trace rx s steps ! i) \<le> last_pos (refresh_trace rx s steps ! Suc i)
         \<or> (\<exists>content. fst (steps ! i) = Readable content
               \<and> length content < last_pos (refresh_trace rx s steps ! i)
               \<and> refresh_trace rx s steps ! Suc i = init rx (fst (steps ! i)) (snd (steps ! i)))
         \<or> (\<exists>n. fst (steps ! i) = ReadFails n
               \<and> n < last_pos (refresh_trace rx s steps ! i)
               \<and> refresh_trace rx s steps ! Suc i =
                   (refresh_trace rx s steps ! i)\<lparr>last_pos := 0\<rparr>)"
    using refresh_step_cursor[of "refresh_trace rx s steps ! i" rx "fst (steps ! i)" "snd (steps ! i)" False]
    by (simp add: refresh_trace_step)
qed

text \<open>
  An engine that read a log of 99 characters finds it replaced by a log of 59 with one
  rate line and reads it: nothing of the two events it held is left.
\<close>

lemma truncation_reload_example:
  "update_log_state demo_rx (Readable (log_of [rate_text])) 50 False
     (init demo_rx (Readable (log_of [start_text, pause_text])) 30) =
   \<lparr>last_pos = 59, latest_rate = Some (40, 11010048), recent_events = [],
    depot_to_app = Map.empty, rate_entries = [(40, 12345, ''10.5'')]\<rparr>"
proof -
  let ?s = "init demo_rx (Readable (log_of [start_text, pause_text])) 30"
  have len: "length (log_of [rate_text]) = 59" by (simp add: log_of_def texts_length)
  have sp: "splitlines (log_of [rate_text]) = [rate_text]"
    by (simp add: splitlines_log_of plain_texts)
  have h: "length (log_of [rate_text]) < last_pos ?s"
    by (simp add: len init_start_pause)
  note r = refresh_cursor_cases[of "Readable (log_of [rate_text])" demo_rx 50 False ?s,
      THEN conjunct1, rule_format, OF refl, THEN conjunct2, THEN conjunct2, rule_format, OF h,
      THEN conjunct2]
  then show ?thesis unfolding sp len by (simp add: scan_rate_only)
qed

lemma scan_rate_onto_events:
  "scan 50 [demo_rx rate_text]
     \<lparr>last_pos = 59, latest_rate = None,
      recent_events = [(12345, [(0, Start), (20, Pause)])], depot_to_app = Map.empty,
      rate_entries = []\<rparr> =
   \<lparr>last_pos = 59, latest_rate = Some (40, 11010048),
    recent_events = [(12345, [(0, Start), (20, Pause)])],
    depot_to_app = Map.empty, rate_entries = [(40, 12345, ''10.5'')]\<rparr>"
  by (simp add: scan_def process_line_def rate_step_def depot_step_def lifecycle_step_def
      demo_rx_simps blank_line_def MAX_AGE_SEC_def PRUNE_AGE_SEC_def py_float_10_5 lower_chars
      speed_of_unit_def newer_than_held_def owner_app_def ev_setdefault_def prune_def fresh_def)

text \<open>
  Claim C5 does not hold when the read that follows a detected truncation fails. An engine
  reads the start and pause lines, 99 characters, at second 30. The file is replaced by
  the rate line alone, 59 characters. The refresh of second 40 finds the size below the
  cursor and sets the cursor to 0, then its read fails: the indexes stay. The refresh of
  second 50 sees a size that is not below the cursor, reads the file from offset 0 as new
  lines and adds them to the indexes it still holds. The state then has the two events of
  the old content, which a reload of the file would not have.
\<close>

theorem truncation_read_failure_keeps_old_events:
  "update_log_state demo_rx (ReadFails 59) 40 False
     (init demo_rx (Readable (log_of [start_text, pause_text])) 30) =
   \<lparr>last_pos = 0, latest_rate = None,
    recent_events = [(12345, [(0, Start), (20, Pause)])],
    depot_to_app = Map.empty, rate_entries = []\<rparr>
   \<and> update_log_state demo_rx (Readable (log_of [rate_text])) 50 False
       (update_log_state demo_rx (ReadFails 59) 40 False
          (init demo_rx (Readable (log_of [start_text, pause_text])) 30)) =
     \<lparr>last_pos = 59, latest_rate = Some (40, 11010048),
      recent_events = [(12345, [(0, Start), (20, Pause)])],
      depot_to_app = Map.empty, rate_entries = [(40, 12345, ''10.5'')]\<rparr>
   \<and> init demo_rx (Readable (log_of [rate_text])) 50 =
     \<lparr>last_pos = 59, latest_rate = Some (40, 11010048), recent_events = [],
      depot_to_app = Map.empty, rate_entries = [(40, 12345, ''10.5'')]\<rparr>"
proof -
  let ?s0 = "init demo_rx (Readable (log_of [start_text, pause_text])) 30"
  let ?s1 = "\<lparr>last_pos = 0, latest_rate = None,
    recent_events = [(12345, [(0::real, Start), (20, Pause)])],
    depot_to_app = Map.empty, rate_entries = []\<rparr>"
  have len: "length (log_of [rate_text]) = 59" by (simp add: log_of_def texts_length)
  have sp: "splitlines (log_of [rate_text]) = [rate_text]"
    by (simp add: splitlines_log_of plain_texts)
  have s1: "update_log_state demo_rx (ReadFails 59) 40 False ?s0 = ?s1"
    unfolding init_start_pause by (simp add: refresh_read_fails)
  have s2: "update_log_state demo_rx (Readable (log_of [rate_text])) 50 False ?s1 =
     \<lparr>last_pos = 59, latest_rate = Some (40, 11010048),
      recent_events = [(12345, [(0, Start), (20, Pause)])],
      depot_to_app = Map.empty, rate_entries = [(40, 12345, ''10.5'')]\<rparr>"
    by (simp add: update_log_state_def len sp scan_rate_onto_events)
  have s3: "init demo_rx (Readable (log_of [rate_text])) 50 =
     \<lparr>last_pos = 59, latest_rate = Some (40, 11010048), recent_events = [],
      depot_to_app = Map.empty, rate_entries = [(40, 12345, ''10.5'')]\<rparr>"
    unfolding init_readable sp len by (simp add: empty_state_def scan_rate_only)
  show ?thesis unfolding s1 using s2 s3 by simp
qed

section \<open>The latest throughput\<close>


lemma depot_step_latest [simp]: "latest_rate (depot_step line s) = latest_rate s"
  by (simp add: depot_step_def split: option.splits prod.splits)

lemma lifecycle_step_latest [simp]: "latest_rate (lifecycle_step now line s) = latest_rate s"
  by (simp add: lifecycle_step_def Let_def split: option.splits list.splits)



















section \<open>The retained lifecycle events\<close>

lemma map_of_key: "map_of evs b = Some x \<Longrightarrow> b \<in> fst ` set evs"
  by (metis map_of_eq_None_iff option.distinct(1))

lemma ev_get_Nil [simp]: "ev_get [] a = []"
  by (simp add: ev_get_def)

lemma ev_get_setdefault [simp]: "ev_get (ev_setdefault b evs) a = ev_get evs a"
proof (cases "b \<in> fst ` set evs")
  case True
  then show ?thesis by (simp add: ev_setdefault_def)
next
  case False
  then have "map_of evs b = None" by (simp add: map_of_eq_None_iff)
  then show ?thesis using False
    by (cases "map_of evs a") (auto simp: ev_get_def ev_setdefault_def map_add_def)
qed

lemma ev_get_map_entry:
  "ev_get (AList.map_entry b g evs) a =
     (if a = b \<and> b \<in> fst ` set evs then g (ev_get evs a) else ev_get evs a)"
proof (cases "map_of evs b")
  case None
  then have "b \<notin> fst ` set evs" by (simp add: map_of_eq_None_iff)
  with None show ?thesis by (simp add: ev_get_def map_of_map_entry)
next
  case (Some l)
  then have "b \<in> fst ` set evs" by (rule map_of_key)
  with Some show ?thesis by (simp add: ev_get_def map_of_map_entry)
qed



lemma depot_step_events [simp]: "recent_events (depot_step line s) = recent_events s"
  by (simp add: depot_step_def split: option.splits prod.splits)


















section \<open>Order of the retained events\<close>

lemma pause_info_events:
  "ev_get (recent_events (snd (get_recent_pause_info rx f clock a s))) b =
     (if b = a
      then sort_key (\<lambda>e. - fst e) (ev_get (recent_events (update_log_state rx f clock False s)) a)
      else ev_get (recent_events (update_log_state rx f clock False s)) b)"
proof -
  let ?s1 = "update_log_state rx f clock False s"
  show ?thesis
  proof (cases "ev_get (recent_events ?s1) a = []")
    case True
    then show ?thesis by (simp add: get_recent_pause_info_def Let_def)
  next
    case False
    then obtain l where "map_of (recent_events ?s1) a = Some l"
      by (auto simp: ev_get_def split: option.splits)
    then have "a \<in> fst ` set (recent_events ?s1)" by (rule map_of_key)
    with False show ?thesis
      by (simp add: get_recent_pause_info_def Let_def ev_get_map_entry)
  qed
qed







section \<open>The manifest fallback\<close>

lemma refresh_settled:
  "(case f of
      Readable content \<Rightarrow> last_pos t = length content
    | ReadFails n \<Rightarrow> last_pos t \<le> n
    | _ \<Rightarrow> True) \<Longrightarrow>
     update_log_state rx f clock False t = t"
  by (cases f) (simp_all add: update_log_state_def splitlines_def)

lemma refresh_is_settled:
  "case f of
     Readable content \<Rightarrow> last_pos (update_log_state rx f clock fl s) = length content
   | ReadFails n \<Rightarrow> last_pos (update_log_state rx f clock fl s) \<le> n
   | _ \<Rightarrow> True"
  by (cases f) (simp_all add: refresh_cursor refresh_read_fails)

lemma pause_info_answer:
  "fst (get_recent_pause_info rx f clock a t) =
     (let l = sort_key (\<lambda>e. - fst e) (ev_get (recent_events (update_log_state rx f clock False t)) a)
      in if l = [] then None
         else if snd (hd l) = Pause then Some (fst (hd l), ''paused'') else None)"
proof (cases "ev_get (recent_events (update_log_state rx f clock False t)) a = []")
  case True
  then show ?thesis by (simp add: get_recent_pause_info_def Let_def)
next
  case False
  then show ?thesis by (simp add: get_recent_pause_info_def Let_def)
qed

lemma pause_info_last_pos:
  "last_pos (snd (get_recent_pause_info rx f clock a t)) =
     last_pos (update_log_state rx f clock False t)"
  by (simp add: get_recent_pause_info_def Let_def)

lemma sort_desc_idem:
  "sort_key (\<lambda>e. - fst e) (sort_key (\<lambda>e. - fst e) l) = sort_key (\<lambda>e::real \<times> 'a. - fst e) l"
  by (rule sort_key_id_if_sorted) (rule sorted_sort_key)

lemma loop_state_refresh:
  assumes "loop_state rx f clock s t" and "t \<noteq> s"
  shows "update_log_state rx f clock False t = t"
proof (rule refresh_settled)
  from assms have lp: "last_pos t = last_pos (update_log_state rx f clock False s)"
    by (simp add: loop_state_def)
  show "case f of
          Readable content \<Rightarrow> last_pos t = length content
        | ReadFails n \<Rightarrow> last_pos t \<le> n
        | _ \<Rightarrow> True"
    using refresh_is_settled[where f=f and rx=rx and clock=clock and fl=False and s=s] lp
    by (cases f) simp_all
qed

lemma loop_state_events:
  assumes "loop_state rx f clock s t"
  shows "sort_key (\<lambda>e. - fst e) (ev_get (recent_events (update_log_state rx f clock False t)) b) =
         sort_key (\<lambda>e. - fst e) (ev_get (recent_events (update_log_state rx f clock False s)) b)"
proof (cases "t = s")
  case True
  then show ?thesis by simp
next
  case False
  with assms show ?thesis by (simp add: loop_state_refresh) (simp add: loop_state_def)
qed

lemma loop_state_answer:
  "loop_state rx f clock s t \<Longrightarrow>
     fst (get_recent_pause_info rx f clock a t) = fst (get_recent_pause_info rx f clock a s)"
  by (simp only: pause_info_answer loop_state_events)

lemma loop_state_step:
  assumes "loop_state rx f clock s t"
  shows "loop_state rx f clock s (snd (get_recent_pause_info rx f clock a t))"
proof -
  let ?U = "update_log_state rx f clock False s"
  let ?t' = "snd (get_recent_pause_info rx f clock a t)"
  have lp: "last_pos (update_log_state rx f clock False t) = last_pos ?U"
  proof (cases "t = s")
    case True
    then show ?thesis by simp
  next
    case False
    with assms show ?thesis by (simp add: loop_state_refresh) (simp add: loop_state_def)
  qed
  have "last_pos ?t' = last_pos ?U" by (simp add: pause_info_last_pos lp)
  moreover have "\<forall>b. sort_key (\<lambda>e. - fst e) (ev_get (recent_events ?t') b) =
                  sort_key (\<lambda>e. - fst e) (ev_get (recent_events ?U) b)"
    by (simp add: pause_info_events sort_desc_idem loop_state_events[OF assms])
  ultimately show ?thesis by (simp add: loop_state_def)
qed

lemma classify_shape:
  "(\<forall>t. classify_manifest rx f clock m t = (None, t))
   \<or> (\<exists>a g. \<forall>t. classify_manifest rx f clock m t =
          (g (fst (get_recent_pause_info rx f clock a t)),
           snd (get_recent_pause_info rx f clock a t)))"
proof (cases "parse_acf (acf_io m)")
  case (Inl e)
  then show ?thesis by (simp add: classify_manifest_def)
next
  case (Inr data)
  show ?thesis
  proof (cases "py_int (dict_get data ''appid'' ''0'')")
    case None
    with Inr show ?thesis by (simp add: classify_manifest_def)
  next
    case (Some a)
    note a = Some
    show ?thesis
    proof (cases "a = 0")
      case True
      with Inr a show ?thesis by (simp add: classify_manifest_def)
    next
      case False
      show ?thesis
      proof (cases "py_int (dict_get data ''StateFlags'' ''4'')")
        case None
        with Inr a False show ?thesis by (simp add: classify_manifest_def)
      next
        case (Some flags)
        note flags = Some
        show ?thesis
        proof (cases "acf_mtime m")
          case None
          with Inr a False flags show ?thesis by (simp add: classify_manifest_def)
        next
          case (Some last_modified)
          let ?game = "\<lparr>game_app_id = a, game_name = dict_get data ''name'' ''Unknown'',
                         game_path = acf_path m\<rparr>"
          let ?g = "\<lambda>pause_info :: (time \<times> string) option.
              if pause_info \<noteq> None \<or> flags AND 512 \<noteq> 0
              then Some (PausedBucket, last_modified, ?game)
              else if flags AND (256 OR 1024 OR 1048576) \<noteq> 0
              then (case (data ''BytesToDownload'', data ''BytesDownloaded'') of
                      (Some to_dl, Some dl) \<Rightarrow>
                        (case py_int to_dl of
                           None \<Rightarrow> None
                         | Some bytes_to_dl \<Rightarrow>
                             (case py_int dl of
                                None \<Rightarrow> None
                              | Some bytes_dl \<Rightarrow>
                                  if bytes_to_dl > bytes_dl
                                  then Some (ActiveBucket, last_modified, ?game)
                                  else None))
                    | _ \<Rightarrow> None)
              else Some (PausedBucket, last_modified, ?game)"
          have e: "\<forall>t. classify_manifest rx f clock m t =
                  (?g (fst (get_recent_pause_info rx f clock a t)),
                   snd (get_recent_pause_info rx f clock a t))"
            using Inr a False flags Some
            by (simp add: classify_manifest_def Let_def split: prod.splits option.splits)
          show ?thesis
            by (rule disjI2, rule exI[of _ a], rule exI[of _ ?g], rule e)
        qed
      qed
    qed
  qed
qed

lemma loop_state_classify:
  assumes "loop_state rx f clock s t"
  shows "loop_state rx f clock s (snd (classify_manifest rx f clock m t))"
proof -
  from classify_shape[of rx f clock m]
  consider "\<forall>t. classify_manifest rx f clock m t = (None, t)"
    | a g where "\<forall>t. classify_manifest rx f clock m t =
          (g (fst (get_recent_pause_info rx f clock a t)),
           snd (get_recent_pause_info rx f clock a t))"
    by blast
  then show ?thesis
  proof cases
    case 1
    with assms show ?thesis by simp
  next
    case 2
    with loop_state_step[OF assms, of a] show ?thesis by simp
  qed
qed

lemma loop_state_classify_fst:
  assumes "loop_state rx f clock s t"
  shows "fst (classify_manifest rx f clock m t) = fst (classify_manifest rx f clock m s)"
proof -
  from classify_shape[of rx f clock m]
  consider "\<forall>t. classify_manifest rx f clock m t = (None, t)"
    | a g where "\<forall>t. classify_manifest rx f clock m t =
          (g (fst (get_recent_pause_info rx f clock a t)),
           snd (get_recent_pause_info rx f clock a t))"
    by blast
  then show ?thesis
  proof cases
    case 1
    then show ?thesis by simp
  next
    case 2
    with loop_state_answer[OF assms, of a] show ?thesis by simp
  qed
qed

lemma bucket_list_Cons:
  "bucket_list rx f clock b s (m # ms) =
     bucket_list rx f clock b s [m] @ bucket_list rx f clock b s ms"
  by (simp add: bucket_list_def List.map_filter_simps split: option.splits)

lemma fallback_step_buckets:
  assumes "loop_state rx f clock s t"
  shows "fallback_step rx f clock (A, P, t) m =
     (A @ bucket_list rx f clock ActiveBucket s [m],
      P @ bucket_list rx f clock PausedBucket s [m],
      snd (classify_manifest rx f clock m t))"
proof -
  obtain r t1 where c: "classify_manifest rx f clock m t = (r, t1)"
    by (cases "classify_manifest rx f clock m t")
  with loop_state_classify_fst[OF assms, of m]
  have r: "fst (classify_manifest rx f clock m s) = r" by simp
  show ?thesis
  proof (cases r)
    case None
    with c r show ?thesis
      by (simp add: fallback_step_def bucket_list_def List.map_filter_simps)
  next
    case (Some be)
    obtain b e where be: "be = (b, e)" by (cases be)
    with Some c r show ?thesis
      by (cases b) (simp_all add: fallback_step_def bucket_list_def List.map_filter_simps)
  qed
qed

lemma foldl_fallback_buckets:
  "loop_state rx f clock s t \<Longrightarrow>
     \<exists>t'. foldl (fallback_step rx f clock) (A, P, t) ms =
       (A @ bucket_list rx f clock ActiveBucket s ms,
        P @ bucket_list rx f clock PausedBucket s ms, t')"
proof (induction ms arbitrary: A P t)
  case Nil
  then show ?case by (simp add: bucket_list_def List.map_filter_simps)
next
  case (Cons m ms)
  let ?t1 = "snd (classify_manifest rx f clock m t)"
  have l: "loop_state rx f clock s ?t1" by (rule loop_state_classify[OF Cons.prems])
  from Cons.IH[OF l, of "A @ bucket_list rx f clock ActiveBucket s [m]"
                        "P @ bucket_list rx f clock PausedBucket s [m]"]
  show ?case
    by (simp add: fallback_step_buckets[OF Cons.prems]
          bucket_list_Cons[of rx f clock _ s m ms])
qed

lemma fallback_by_buckets:
  "fst (find_active_game_fallback rx f clock manifests s) =
     (if bucket_list rx f clock ActiveBucket s manifests \<noteq> []
      then Some (newest_game (bucket_list rx f clock ActiveBucket s manifests))
      else if bucket_list rx f clock PausedBucket s manifests \<noteq> []
      then Some (newest_game (bucket_list rx f clock PausedBucket s manifests))
      else None)"
proof -
  have "loop_state rx f clock s s" by (simp add: loop_state_def)
  from foldl_fallback_buckets[OF this, of "[]" "[]" manifests]
  obtain t' where "foldl (fallback_step rx f clock) ([], [], s) manifests =
     (bucket_list rx f clock ActiveBucket s manifests,
      bucket_list rx f clock PausedBucket s manifests, t')" by auto
  then show ?thesis by (simp add: find_active_game_fallback_def)
qed

lemma bucket_list_set:
  "e \<in> set (bucket_list rx f clock b s manifests) \<longleftrightarrow>
     (\<exists>m \<in> set manifests. fst (classify_manifest rx f clock m s) = Some (b, e))"
  by (induction manifests)
    (auto simp: bucket_list_def List.map_filter_simps split: option.splits if_splits)

lemma classify_manifest_cases:
  assumes "parse_acf (acf_io m) = Inr data"
    and "py_int (dict_get data ''appid'' ''0'') = Some a" and "a \<noteq> 0"
    and "py_int (dict_get data ''StateFlags'' ''4'') = Some flags"
    and "acf_mtime m = Some t"
  shows "fst (classify_manifest rx f clock m s) =
     (let g = \<lparr>game_app_id = a, game_name = dict_get data ''name'' ''Unknown'',
               game_path = acf_path m\<rparr>
      in if fst (get_recent_pause_info rx f clock a s) \<noteq> None \<or> flags AND 512 \<noteq> 0
         then Some (PausedBucket, t, g)
         else if flags AND (256 OR 1024 OR 1048576) \<noteq> 0
         then (if \<exists>td d x y. data ''BytesToDownload'' = Some td \<and> data ''BytesDownloaded'' = Some d
                     \<and> py_int td = Some x \<and> py_int d = Some y \<and> x > y
               then Some (ActiveBucket, t, g) else None)
         else Some (PausedBucket, t, g))"
  using assms
  by (auto simp: classify_manifest_def Let_def split: prod.splits option.splits)

lemma classify_manifest_skips:
  "(\<exists>e. parse_acf (acf_io m) = Inl e)
   \<or> (\<exists>data. parse_acf (acf_io m) = Inr data \<and>
         (py_int (dict_get data ''appid'' ''0'') = None
          \<or> py_int (dict_get data ''appid'' ''0'') = Some 0
          \<or> py_int (dict_get data ''StateFlags'' ''4'') = None))
   \<or> acf_mtime m = None
   \<Longrightarrow> fst (classify_manifest rx f clock m s) = None"
  by (auto simp: classify_manifest_def Let_def split: prod.splits option.splits sum.splits)

text \<open>
  Claim C4, amended. The fallback skips a manifest that cannot be parsed, whose \<^verbatim>\<open>appid\<close> or
  \<^verbatim>\<open>StateFlags\<close> is not an integer, whose \<^verbatim>\<open>appid\<close> is 0, or whose modification time
  cannot be read. Any other manifest goes to the paused list when a pause is reported for
  its app or bit 512 is set; otherwise, under a download-family flag, to the active list
  when both byte fields are integers with \<^verbatim>\<open>BytesToDownload > BytesDownloaded\<close> and to no
  list when they are not; otherwise to the paused list. Each list holds, in the order of
  the manifests, the entries of the manifests classified so against the engine state the
  fallback starts from. The answer is the newest entry of the active list if there is one,
  else the newest of the paused list, else none, and the newest entry of a list has the
  greatest modification time in it.
\<close>

theorem fallback_rule:
  "((\<exists>e. parse_acf (acf_io m) = Inl e)
      \<or> (\<exists>data. parse_acf (acf_io m) = Inr data \<and>
            (py_int (dict_get data ''appid'' ''0'') = None
             \<or> py_int (dict_get data ''appid'' ''0'') = Some 0
             \<or> py_int (dict_get data ''StateFlags'' ''4'') = None))
      \<or> acf_mtime m = None
     \<longrightarrow> fst (classify_manifest rx f clock m s) = None)
   \<and> (\<forall>data a flags t.
         parse_acf (acf_io m) = Inr data \<and> py_int (dict_get data ''appid'' ''0'') = Some a
         \<and> a \<noteq> 0 \<and> py_int (dict_get data ''StateFlags'' ''4'') = Some flags
         \<and> acf_mtime m = Some t \<longrightarrow>
         fst (classify_manifest rx f clock m s) =
           (let g = \<lparr>game_app_id = a, game_name = dict_get data ''name'' ''Unknown'',
                     game_path = acf_path m\<rparr>
            in if fst (get_recent_pause_info rx f clock a s) \<noteq> None \<or> flags AND 512 \<noteq> 0
               then Some (PausedBucket, t, g)
               else if flags AND (256 OR 1024 OR 1048576) \<noteq> 0
               then (if \<exists>td d x y. data ''BytesToDownload'' = Some td
                          \<and> data ''BytesDownloaded'' = Some d
                          \<and> py_int td = Some x \<and> py_int d = Some y \<and> x > y
                     then Some (ActiveBucket, t, g) else None)
               else Some (PausedBucket, t, g)))
   \<and> fst (find_active_game_fallback rx f clock manifests s) =
       (if bucket_list rx f clock ActiveBucket s manifests \<noteq> []
        then Some (newest_game (bucket_list rx f clock ActiveBucket s manifests))
        else if bucket_list rx f clock PausedBucket s manifests \<noteq> []
        then Some (newest_game (bucket_list rx f clock PausedBucket s manifests))
        else None)
   \<and> (\<forall>b e. e \<in> set (bucket_list rx f clock b s manifests) \<longleftrightarrow>
          (\<exists>m \<in> set manifests. fst (classify_manifest rx f clock m s) = Some (b, e)))
   \<and> (\<forall>games. games \<noteq> [] \<longrightarrow>
         (\<exists>t. (t, newest_game games) \<in> set games \<and> (\<forall>e \<in> set games. fst e \<le> t)))"
proof -
  have c1: "(\<exists>e. parse_acf (acf_io m) = Inl e)
      \<or> (\<exists>data. parse_acf (acf_io m) = Inr data \<and>
            (py_int (dict_get data ''appid'' ''0'') = None
             \<or> py_int (dict_get data ''appid'' ''0'') = Some 0
             \<or> py_int (dict_get data ''StateFlags'' ''4'') = None))
      \<or> acf_mtime m = None
     \<longrightarrow> fst (classify_manifest rx f clock m s) = None"
    using classify_manifest_skips[of m rx f clock s] by blast
  have c2: "\<forall>data a flags t.
         parse_acf (acf_io m) = Inr data \<and> py_int (dict_get data ''appid'' ''0'') = Some a
         \<and> a \<noteq> 0 \<and> py_int (dict_get data ''StateFlags'' ''4'') = Some flags
         \<and> acf_mtime m = Some t \<longrightarrow>
         fst (classify_manifest rx f clock m s) =
           (let g = \<lparr>game_app_id = a, game_name = dict_get data ''name'' ''Unknown'',
                     game_path = acf_path m\<rparr>
            in if fst (get_recent_pause_info rx f clock a s) \<noteq> None \<or> flags AND 512 \<noteq> 0
               then Some (PausedBucket, t, g)
               else if flags AND (256 OR 1024 OR 1048576) \<noteq> 0
               then (if \<exists>td d x y. data ''BytesToDownload'' = Some td
                          \<and> data ''BytesDownloaded'' = Some d
                          \<and> py_int td = Some x \<and> py_int d = Some y \<and> x > y
                     then Some (ActiveBucket, t, g) else None)
               else Some (PausedBucket, t, g))"
    using classify_manifest_cases[of m _ _ _ _ rx f clock s] by blast
  have c3: "fst (find_active_game_fallback rx f clock manifests s) =
       (if bucket_list rx f clock ActiveBucket s manifests \<noteq> []
        then Some (newest_game (bucket_list rx f clock ActiveBucket s manifests))
        else if bucket_list rx f clock PausedBucket s manifests \<noteq> []
        then Some (newest_game (bucket_list rx f clock PausedBucket s manifests))
        else None)"
    by (rule fallback_by_buckets)
  have c4: "\<forall>b e. e \<in> set (bucket_list rx f clock b s manifests) \<longleftrightarrow>
          (\<exists>m \<in> set manifests. fst (classify_manifest rx f clock m s) = Some (b, e))"
    by (simp add: bucket_list_set)
  have c5: "\<forall>games. games \<noteq> [] \<longrightarrow>
         (\<exists>t. (t, newest_game games) \<in> set games \<and> (\<forall>e \<in> set games. fst e \<le> t))"
    using newest_game_max by blast
  show ?thesis
    by (rule conjI[OF c1 conjI[OF c2 conjI[OF c3 conjI[OF c4 c5]]]])
qed

text \<open>Two manifests with downloads in progress: the one modified later is returned.\<close>

theorem fallback_rule_witness:
  "fst (find_active_game_fallback no_hits Missing 0
          [\<lparr>acf_path = ''appmanifest_12345.acf'', acf_io = (\<lambda>_. Some (partial_acf ''12345'')),
            acf_mtime = Some 1\<rparr>,
           \<lparr>acf_path = ''appmanifest_67890.acf'', acf_io = (\<lambda>_. Some (partial_acf ''67890'')),
            acf_mtime = Some 2\<rparr>] empty_state)
     = Some \<lparr>game_app_id = 67890, game_name = ''Unknown'', game_path = ''appmanifest_67890.acf''\<rparr>"
proof -
  let ?m1 = "\<lparr>acf_path = ''appmanifest_12345.acf'', acf_io = (\<lambda>_. Some (partial_acf ''12345'')),
            acf_mtime = Some (1::real)\<rparr>"
  let ?m2 = "\<lparr>acf_path = ''appmanifest_67890.acf'', acf_io = (\<lambda>_. Some (partial_acf ''67890'')),
            acf_mtime = Some (2::real)\<rparr>"
  let ?g1 = "\<lparr>game_app_id = 12345, game_name = ''Unknown'', game_path = ''appmanifest_12345.acf''\<rparr>"
  let ?g2 = "\<lparr>game_app_id = 67890, game_name = ''Unknown'', game_path = ''appmanifest_67890.acf''\<rparr>"
  have b: "bucket_list no_hits Missing 0 ActiveBucket empty_state [?m1, ?m2] = [(1, ?g1), (2, ?g2)]"
    by (simp add: bucket_list_def List.map_filter_simps classify_manifest_def parse_partial_12345
          parse_partial_67890 dict_get_def no_file_pause_info)
  note r = fallback_rule[of ?m1 no_hits Missing 0 empty_state "[?m1, ?m2]",
      THEN conjunct2, THEN conjunct2, THEN conjunct1]
  then show ?thesis unfolding b by (simp add: newest_game_def)
qed

text \<open>
  Claim C4 as stated fails: a single manifest with flag 256 and equal byte counts is put in
  no list at all, so the fallback finds nothing, where the claim has it in the paused list
  and returned.
\<close>

theorem fallback_counterexample:
  "fst (find_active_game_fallback no_hits Missing 0
          [\<lparr>acf_path = ''appmanifest_12345.acf'', acf_io = (\<lambda>_. Some completed_acf),
            acf_mtime = Some 1\<rparr>] empty_state) = None"
  by (simp add: find_active_game_fallback_def fallback_step_def classify_manifest_def
        parse_completed dict_get_def no_file_pause_info)

section \<open>Staleness of what the queries return\<close>

text \<open>
  Claim C6 does not hold of \<^verbatim>\<open>get_recent_pause_info\<close>. An engine reads a start and a pause
  of app 12345 at second 30. Two hours later the file is unchanged, so the refresh returns
  before its prune pass, and the query reports the pause of second 20, now 7180s old.
\<close>

theorem stale_pause_reported:
  "fst (get_recent_pause_info demo_rx (Readable (log_of [start_text, pause_text])) 7200 12345
          (init demo_rx (Readable (log_of [start_text, pause_text])) 30)) = Some (20, ''paused'')
   \<and> (7200::real) - 20 > PRUNE_AGE_SEC"
proof -
  have len: "length (log_of [start_text, pause_text]) = 99"
    by (simp add: log_of_def texts_length)
  have sl: "splitlines [] = []" by (simp add: splitlines_def)
  show ?thesis
    unfolding init_start_pause
    by (simp add: get_recent_pause_info_def update_log_state_def len sl ev_get_def
        PRUNE_AGE_SEC_def)
qed

section \<open>The most recent active download\<close>

lemma list_ex_sort [simp]: "list_ex P (sort_key f xs) = list_ex P xs"
  by (simp add: list_ex_iff)

lemma later_pause_eq:
  "later_pause now ts = (\<lambda>p. snd p = Pause \<and> fst p > ts \<and> now - fst p \<le> 180)"
  by (rule ext) (simp add: later_pause_def MAX_AGE_SEC_def)

lemma scan_rate_entries_find:
  "scan_rate_entries now evs xs =
     (case find (rate_confirmed now evs) xs of Some e \<Rightarrow> Some (fst (snd e)) | None \<Rightarrow> None)"
proof (induction xs)
  case Nil
  then show ?case by simp
next
  case (Cons e xs)
  obtain ts a raw where e: "e = (ts, a, raw)" by (cases e)
  show ?case using Cons.IH
    by (simp add: e rate_confirmed_def later_pause_eq MAX_AGE_SEC_def Let_def)
qed

lemma active_apps_of_filter:
  "active_apps_of now evs =
     map (\<lambda>kv. (fst (latest_event (snd kv)), fst kv))
       (filter (\<lambda>kv. event_active now (snd kv)) evs)"
proof (induction evs)
  case Nil
  then show ?case by simp
next
  case (Cons kv evs)
  obtain a events where kv: "kv = (a, events)" by (cases kv)
  show ?case using Cons.IH
    by (simp add: kv event_active_def latest_event_def later_pause_eq MAX_AGE_SEC_def Let_def)
qed

lemma most_recent_active_spec: "most_recent_active now s = spec_most_recent_active now s"
  by (simp add: most_recent_active_def spec_most_recent_active_def scan_rate_entries_find
      active_apps_of_filter split: option.splits)

lemma find_sorted_least:
  "sorted (map f ys) \<Longrightarrow> find P ys = Some e \<Longrightarrow> e' \<in> set ys \<Longrightarrow> P e' \<Longrightarrow> f e \<le> f e'"
proof (induction ys)
  case Nil
  then show ?case by simp
next
  case (Cons y ys)
  show ?case
  proof (cases "P y")
    case True
    with Cons.prems have "e = y" by simp
    with Cons.prems(1,3) show ?thesis by auto
  next
    case False
    with Cons.prems have "find P ys = Some e" "e' \<in> set ys" by auto
    with Cons show ?thesis by simp
  qed
qed

lemma find_Some_set: "find P ys = Some e \<Longrightarrow> e \<in> set ys \<and> P e"
  by (induction ys) (auto split: if_splits)

lemma sorted_le_last:
  "sorted (map f ys) \<Longrightarrow> e \<in> set ys \<Longrightarrow> f e \<le> f (last ys)"
proof (induction ys)
  case Nil
  then show ?case by simp
next
  case (Cons y ys)
  show ?case
  proof (cases "ys = []")
    case True
    with Cons.prems show ?thesis by simp
  next
    case False
    then have l: "last ys \<in> set ys" by (rule last_in_set)
    from Cons.prems(2) consider "e = y" | "e \<in> set ys" by auto
    then show ?thesis
    proof cases
      case 1
      with Cons.prems(1) l False show ?thesis by auto
    next
      case 2
      with Cons False show ?thesis by simp
    qed
  qed
qed

lemma find_newest_confirmed:
  assumes "find P (sort_key (\<lambda>e. - fst e) xs) = Some (e :: real \<times> 'a)"
  shows "e \<in> set xs \<and> P e \<and> (\<forall>e' \<in> set xs. P e' \<longrightarrow> fst e' \<le> fst e)"
proof -
  let ?ys = "sort_key (\<lambda>e. - fst e) xs"
  from assms have "e \<in> set ?ys \<and> P e" by (rule find_Some_set)
  moreover have "\<forall>e' \<in> set xs. P e' \<longrightarrow> fst e' \<le> fst e"
  proof (intro ballI impI)
    fix e' assume "e' \<in> set xs" "P e'"
    then have "- fst e \<le> - fst e'"
      using find_sorted_least[of "\<lambda>e. - fst e" ?ys P e e'] assms by (simp add: sorted_sort_key)
    then show "fst e' \<le> fst e" by simp
  qed
  ultimately show ?thesis by simp
qed

lemma latest_event_max:
  assumes "evs \<noteq> []"
  shows "latest_event evs \<in> set evs \<and> (\<forall>e \<in> set evs. fst e \<le> fst (latest_event evs))"
proof -
  let ?ys = "sort_key fst evs"
  from assms have ne: "?ys \<noteq> []" by simp
  then have "last ?ys \<in> set ?ys" by (rule last_in_set)
  then have m: "latest_event evs \<in> set evs" by (simp add: latest_event_def)
  have so: "sorted (map fst ?ys)" by (rule sorted_sort_key)
  have "\<forall>e \<in> set evs. fst e \<le> fst (latest_event evs)"
  proof
    fix e assume "e \<in> set evs"
    then have "e \<in> set ?ys" by simp
    with so show "fst e \<le> fst (latest_event evs)"
      unfolding latest_event_def by (rule sorted_le_last)
  qed
  with m show ?thesis by simp
qed

lemma newest_active_app:
  fixes evs :: "(int \<times> (time \<times> etype) list) list"
  assumes "sort_key (\<lambda>x. - fst x)
             (map (\<lambda>kv. (fst (latest_event (snd kv)), fst kv))
                (filter (\<lambda>kv. event_active now (snd kv)) evs)) = x # rest"
  shows "\<exists>kv \<in> set evs. event_active now (snd kv) \<and> fst kv = snd x
           \<and> fst (latest_event (snd kv)) = fst x
           \<and> (\<forall>kv' \<in> set evs. event_active now (snd kv') \<longrightarrow>
                 fst (latest_event (snd kv')) \<le> fst x)"
proof -
  let ?g = "\<lambda>kv::int \<times> (time \<times> etype) list. (fst (latest_event (snd kv)), fst kv)"
  let ?c = "map ?g (filter (\<lambda>kv. event_active now (snd kv)) evs)"
  from assms have ne: "?c \<noteq> []" by (metis sort_key_Nil_iff list.distinct(1))
  have hx: "hd (sort_key (\<lambda>x. - fst x) ?c) = x" using assms by simp
  have x: "x \<in> set ?c" using hd_sort_desc[OF ne, THEN conjunct1] unfolding hx .
  have mx: "\<forall>e \<in> set ?c. fst e \<le> fst x" using hd_sort_desc[OF ne, THEN conjunct2] unfolding hx .
  from x obtain kv where kv: "kv \<in> set evs" "event_active now (snd kv)" "x = ?g kv" by auto
  have "\<forall>kv' \<in> set evs. event_active now (snd kv') \<longrightarrow> fst (latest_event (snd kv')) \<le> fst x"
  proof (intro ballI impI)
    fix kv' assume "kv' \<in> set evs" "event_active now (snd kv')"
    then have "?g kv' \<in> set ?c" by simp
    with mx show "fst (latest_event (snd kv')) \<le> fst x" by fastforce
  qed
  with kv show ?thesis by auto
qed

lemma no_active_app:
  "sort_key (\<lambda>x. - fst x)
     (map (\<lambda>kv. (fst (latest_event (snd kv)), fst kv))
        (filter (\<lambda>kv. event_active now (snd kv)) evs)) = []
   \<longleftrightarrow> (\<forall>kv \<in> set evs. \<not> event_active now (snd kv))"
  by (simp add: filter_empty_conv)

lemma find_None_confirmed:
  "find P (sort_key f xs) = None \<longleftrightarrow> (\<forall>e \<in> set xs. \<not> P e)"
  by (auto simp: find_None_iff)

lemma start_then_pause:
  "spec_most_recent_active t
     \<lparr>last_pos = n, latest_rate = lr,
      recent_events = [(a, [(t - 30, Start), (t - 10, Pause)])],
      depot_to_app = dm, rate_entries = []\<rparr> = None"
  by (simp add: spec_most_recent_active_def event_active_def latest_event_def)

text \<open>
  Claim C1. After its refresh, \<^verbatim>\<open>get_most_recent_active_download\<close> answers with the app of
  the first confirmed rate entry in newest-first order, which is a confirmed entry of
  greatest timestamp, and there is none exactly when no entry is confirmed; failing that,
  with the app that is active by its events and whose latest event is the most recent
  among such apps, and with nothing exactly when no app is active by its events. The latest
  event of a non-empty list is one of its events, of greatest timestamp. A start 30s ago
  followed by a pause 10s ago, with no rate entry, gives nothing.
\<close>

theorem most_recent_active_download_rule:
  "fst (get_most_recent_active_download rx f clock now s) =
     spec_most_recent_active now (update_log_state rx f clock False s)
   \<and> snd (get_most_recent_active_download rx f clock now s) =
       update_log_state rx f clock False s
   \<and> (\<forall>e. find (rate_confirmed now evs) (sort_key (\<lambda>e. - fst e) entries) = Some e \<longrightarrow>
          e \<in> set entries \<and> rate_confirmed now evs e
          \<and> (\<forall>e' \<in> set entries. rate_confirmed now evs e' \<longrightarrow> fst e' \<le> fst e))
   \<and> (find (rate_confirmed now evs) (sort_key (\<lambda>e. - fst e) entries) = None \<longleftrightarrow>
        (\<forall>e \<in> set entries. \<not> rate_confirmed now evs e))
   \<and> (\<forall>x rest.
          sort_key (\<lambda>x. - fst x)
            (map (\<lambda>kv. (fst (latest_event (snd kv)), fst kv))
               (filter (\<lambda>kv. event_active now (snd kv)) evs)) = x # rest \<longrightarrow>
          (\<exists>kv \<in> set evs. event_active now (snd kv) \<and> fst kv = snd x
             \<and> fst (latest_event (snd kv)) = fst x
             \<and> (\<forall>kv' \<in> set evs. event_active now (snd kv') \<longrightarrow>
                   fst (latest_event (snd kv')) \<le> fst x)))
   \<and> (sort_key (\<lambda>x. - fst x)
         (map (\<lambda>kv. (fst (latest_event (snd kv)), fst kv))
            (filter (\<lambda>kv. event_active now (snd kv)) evs)) = []
        \<longleftrightarrow> (\<forall>kv \<in> set evs. \<not> event_active now (snd kv)))
   \<and> (\<forall>l. l \<noteq> [] \<longrightarrow>
          latest_event l \<in> set l \<and> (\<forall>e \<in> set l. fst e \<le> fst (latest_event l)))
   \<and> (\<forall>t a n lr dm.
          spec_most_recent_active t
            \<lparr>last_pos = n, latest_rate = lr,
             recent_events = [(a, [(t - 30, Start), (t - 10, Pause)])],
             depot_to_app = dm, rate_entries = []\<rparr> = None)"
proof -
  have c1: "fst (get_most_recent_active_download rx f clock now s) =
     spec_most_recent_active now (update_log_state rx f clock False s)"
    by (simp add: get_most_recent_active_download_def Let_def most_recent_active_spec)
  have c2: "snd (get_most_recent_active_download rx f clock now s) =
       update_log_state rx f clock False s"
    by (simp add: get_most_recent_active_download_def Let_def)
  have c3: "\<forall>e. find (rate_confirmed now evs) (sort_key (\<lambda>e. - fst e) entries) = Some e \<longrightarrow>
          e \<in> set entries \<and> rate_confirmed now evs e
          \<and> (\<forall>e' \<in> set entries. rate_confirmed now evs e' \<longrightarrow> fst e' \<le> fst e)"
    using find_newest_confirmed[of "rate_confirmed now evs" entries] by blast
  have c4: "find (rate_confirmed now evs) (sort_key (\<lambda>e. - fst e) entries) = None \<longleftrightarrow>
        (\<forall>e \<in> set entries. \<not> rate_confirmed now evs e)"
    by (rule find_None_confirmed)
  have c5: "\<forall>x rest.
          sort_key (\<lambda>x. - fst x)
            (map (\<lambda>kv. (fst (latest_event (snd kv)), fst kv))
               (filter (\<lambda>kv. event_active now (snd kv)) evs)) = x # rest \<longrightarrow>
          (\<exists>kv \<in> set evs. event_active now (snd kv) \<and> fst kv = snd x
             \<and> fst (latest_event (snd kv)) = fst x
             \<and> (\<forall>kv' \<in> set evs. event_active now (snd kv') \<longrightarrow>
                   fst (latest_event (snd kv')) \<le> fst x))"
    using newest_active_app[of now evs] by blast
  have c6: "sort_key (\<lambda>x. - fst x)
         (map (\<lambda>kv. (fst (latest_event (snd kv)), fst kv))
            (filter (\<lambda>kv. event_active now (snd kv)) evs)) = []
        \<longleftrightarrow> (\<forall>kv \<in> set evs. \<not> event_active now (snd kv))"
    by (rule no_active_app)
  have c7: "\<forall>l. l \<noteq> [] \<longrightarrow>
          latest_event l \<in> set l \<and> (\<forall>e \<in> set l. fst e \<le> fst (latest_event l))"
    using latest_event_max by blast
  have c8: "\<forall>t a n lr dm.
          spec_most_recent_active t
            \<lparr>last_pos = n, latest_rate = lr,
             recent_events = [(a, [(t - 30, Start), (t - 10, Pause)])],
             depot_to_app = dm, rate_entries = []\<rparr> = None"
    by (simp add: start_then_pause)
  show ?thesis
    by (rule conjI[OF c1 conjI[OF c2 conjI[OF c3 conjI[OF c4 conjI[OF c5 conjI[OF c6
          conjI[OF c7 c8]]]]]]])
qed

lemma process_rate:
  "now \<le> 220 \<Longrightarrow>
     process_line now s (demo_rx rate_text) =
       s\<lparr>latest_rate := (if newer_than_held 40 (latest_rate s) then Some (40, 11010048)
                          else latest_rate s),
         rate_entries := rate_entries s @ [(40, 12345, ''10.5'')],
         recent_events := ev_setdefault 12345 (recent_events s)\<rparr>"
  by (simp add: process_line_def rate_step_def depot_step_def lifecycle_step_def
      demo_rx_simps blank_line_def MAX_AGE_SEC_def PRUNE_AGE_SEC_def py_float_10_5 lower_chars
      speed_of_unit_def owner_app_def)

lemma init_three:
  "init demo_rx (Readable (log_of [start_text, pause_text, rate_text])) 50 =
     \<lparr>last_pos = 158, latest_rate = Some (40, 11010048),
      recent_events = [(12345, [(0, Start), (20, Pause)])],
      depot_to_app = Map.empty, rate_entries = [(40, 12345, ''10.5'')]\<rparr>"
proof -
  have len: "length (log_of [start_text, pause_text, rate_text]) = 158"
    by (simp add: log_of_def texts_length)
  have sp: "splitlines (log_of [start_text, pause_text, rate_text]) =
              [start_text, pause_text, rate_text]"
    by (simp add: splitlines_log_of plain_texts)
  show ?thesis
    unfolding init_readable sp len
    by (simp add: scan_def process_start process_pause process_rate newer_than_held_def
        empty_state_def ev_setdefault_def prune_def fresh_def PRUNE_AGE_SEC_def)
qed

lemma refresh_unchanged:
  "last_pos s = length content \<Longrightarrow>
     update_log_state rx (Readable content) now False s = s"
  by (simp add: update_log_state_def splitlines_def)

text \<open>
  The start and pause lines read at second 30 give nothing; with the rate line of second
  40 added and read at second 50, app 12345 is confirmed by its rate entry, the pause of
  second 20 being older than the entry.
\<close>

theorem most_recent_active_download_rule_witness:
  "fst (get_most_recent_active_download demo_rx (Readable (log_of [start_text, pause_text]))
          30 30 (init demo_rx (Readable (log_of [start_text, pause_text])) 30)) = None
   \<and> fst (get_most_recent_active_download demo_rx
            (Readable (log_of [start_text, pause_text, rate_text])) 50 50
            (init demo_rx (Readable (log_of [start_text, pause_text, rate_text])) 50))
       = Some 12345"
proof -
  let ?f2 = "Readable (log_of [start_text, pause_text])"
  let ?f3 = "Readable (log_of [start_text, pause_text, rate_text])"
  have len2: "length (log_of [start_text, pause_text]) = 99"
    by (simp add: log_of_def texts_length)
  have len3: "length (log_of [start_text, pause_text, rate_text]) = 158"
    by (simp add: log_of_def texts_length)
  have u2: "update_log_state demo_rx ?f2 30 False (init demo_rx ?f2 30) = init demo_rx ?f2 30"
    by (rule refresh_unchanged) (simp add: init_start_pause len2)
  have u3: "update_log_state demo_rx ?f3 50 False (init demo_rx ?f3 50) = init demo_rx ?f3 50"
    by (rule refresh_unchanged) (simp add: init_three len3)
  have s2: "spec_most_recent_active 30 (init demo_rx ?f2 30) = None"
    unfolding init_start_pause
    by (simp add: spec_most_recent_active_def event_active_def latest_event_def)
  have s3: "spec_most_recent_active 50 (init demo_rx ?f3 50) = Some 12345"
    unfolding init_three
    by (simp add: spec_most_recent_active_def rate_confirmed_def ev_get_def)
  note r2 = most_recent_active_download_rule[of demo_rx ?f2 30 30 "init demo_rx ?f2 30",
      THEN conjunct1]
  note r3 = most_recent_active_download_rule[of demo_rx ?f3 50 50 "init demo_rx ?f3 50",
      THEN conjunct1]
  from r2 r3 show ?thesis unfolding u2 u3 s2 s3 by simp
qed

end
